theory Spec2Isabelle
  imports Complex_Main "HOL-Library.AList"
begin

section \<open>Distributed lock service (distributed-lock.service.ts)\<close>

text \<open>
  The service keeps three mutable fields: the Redlock instance (\<open>distributedLock\<close>, here
  only whether it is defined), the \<open>lockCounter\<close> object and the \<open>shuttingDown\<close> flag.
  Calls on the lock backend and on the logger are recorded, in order, in \<open>trace\<close>.
  What the backend answers (whether an acquire, an unlock or a quit settles with a value
  or with an error) is an input of the model.
\<close>

datatype js_error = JsError (message: string)

text \<open>
  Values stored in \<open>lockCounter\<close> are JavaScript numbers. They only ever hold
  integers, far below \<open>2^53\<close> and therefore exact, or \<open>NaN\<close>.
\<close>

datatype jsnum = Num int | NaN

text \<open>
  \<open>lockCounter\<close> is created as \<open>{}\<close>: a plain object, whose prototype is
  \<open>Object.prototype\<close>. The association list holds its own properties (the only use of
  their order is \<open>Object.values(...).every\<close>, which does not depend on it). Reading
  a property that the object does not own falls through to the prototype, which has
  the members below: eleven methods, and the accessor \<open>__proto__\<close>.
\<close>

type_synonym lock_counter = "(string \<times> jsnum) list"

definition object_prototype_names :: "string list" where
  "object_prototype_names =
     [''constructor'', ''__defineGetter__'', ''__defineSetter__'', ''hasOwnProperty'',
      ''__lookupGetter__'', ''__lookupSetter__'', ''isPrototypeOf'', ''propertyIsEnumerable'',
      ''toString'', ''valueOf'', ''__proto__'', ''toLocaleString'']"

text \<open>What \<open>this.lockCounter[resource]\<close> reads: nothing, an own number, or an inherited
  member (a function, or for \<open>__proto__\<close> the prototype object).\<close>

datatype js_read = Absent | Own jsnum | Inherited

definition lockCounter_get :: "lock_counter \<Rightarrow> string \<Rightarrow> js_read" where
  "lockCounter_get c resource =
     (case map_of c resource of
        Some v \<Rightarrow> Own v
      | None \<Rightarrow> if resource \<in> set object_prototype_names then Inherited else Absent)"

text \<open>
  Assigning a number to \<open>this.lockCounter[resource]\<close> creates or overwrites an own
  property, except for \<open>__proto__\<close>, whose setter ignores a value that is not an
  object.
\<close>

definition lockCounter_set :: "string \<Rightarrow> jsnum \<Rightarrow> lock_counter \<Rightarrow> lock_counter" where
  "lockCounter_set resource v c = (if resource = ''__proto__'' then c else AList.update resource v c)"

text \<open>The number that \<open>++\<close> and \<open>--\<close> start from: \<open>undefined\<close>, a function and an
  object convert to \<open>NaN\<close>.\<close>

fun to_number :: "js_read \<Rightarrow> jsnum" where
  "to_number Absent = NaN"
| "to_number (Own v) = v"
| "to_number Inherited = NaN"

fun js_add :: "jsnum \<Rightarrow> int \<Rightarrow> jsnum" where
  "js_add (Num n) k = Num (n + k)"
| "js_add NaN k = NaN"

datatype log_level = Verbose | Debug | Info | LogError

datatype log_message =
    RedlockNotEnabled
  | LockAcquired string int
  | LockThrew string string
  | LockFor string
  | LockReleasedFor string
  | LockCounterAt string js_read
  | ReleasingThrew string string
  | RedlockShuttingDown
  | ErrorQuitting string
  | RedlockShutdown

datatype lock_event =
    BackendAcquire string int
  | BackendUnlock string
  | BackendQuit
  | Logged log_level log_message

record lock_service =
  distributedLock :: bool
  lockCounter :: lock_counter
  shuttingDown :: bool
  trace :: "lock_event list"

text \<open>The lock object that \<open>Redlock.acquire\<close> resolves to: calling its \<open>unlock()\<close>
  resolves (\<open>None\<close>) or rejects with an error.\<close>

datatype acquired_lock = AcquiredLock (unlock: "js_error option")

definition emit :: "lock_event \<Rightarrow> lock_service \<Rightarrow> lock_service" where
  "emit e s = s\<lparr>trace := trace s @ [e]\<rparr>"

text \<open>JavaScript truthiness of \<open>this.lockCounter[resource]\<close>: \<open>undefined\<close>, \<open>0\<close> and
  \<open>NaN\<close> are falsy; a function and an object are truthy.\<close>

fun truthy :: "js_read \<Rightarrow> bool" where
  "truthy Absent = False"
| "truthy (Own NaN) = False"
| "truthy (Own (Num n)) = (n \<noteq> 0)"
| "truthy Inherited = True"

text \<open>
  \<^verbatim>\<open>if (this.lockCounter[resource]) { this.lockCounter[resource]++; return; }
  this.lockCounter[resource] = 1;\<close>
\<close>

definition increaseLockCounter :: "string \<Rightarrow> lock_counter \<Rightarrow> lock_counter" where
  "increaseLockCounter resource c =
     (if truthy (lockCounter_get c resource)
      then lockCounter_set resource (js_add (to_number (lockCounter_get c resource)) 1) c
      else lockCounter_set resource (Num 1) c)"

text \<open>\<^verbatim>\<open>this.lockCounter[resource]--;\<close>\<close>

definition decreaseLockCounter :: "string \<Rightarrow> lock_counter \<Rightarrow> lock_counter" where
  "decreaseLockCounter resource c =
     lockCounter_set resource (js_add (to_number (lockCounter_get c resource)) (- 1)) c"

text \<open>\<^verbatim>\<open>Object.values(this.lockCounter).every((value) => !value)\<close>
  \<open>Object.values\<close> lists the own properties only.\<close>

definition areAllLocksReleased :: "lock_service \<Rightarrow> bool" where
  "areAllLocksReleased s = list_all (\<lambda>(k, v). \<not> truthy (Own v)) (lockCounter s)"

definition isDistributedLockEnabled :: "lock_service \<Rightarrow> bool \<times> lock_service" where
  "isDistributedLockEnabled s =
     (if \<not> distributedLock s then (False, emit (Logged Info RedlockNotEnabled) s)
      else (True, s))"

text \<open>
  The closure returned by \<open>createLockRelease\<close>: it logs the counter, calls
  \<open>lock.unlock()\<close>, logs (and swallows) an error of the unlock, and in its \<open>finally\<close>
  decrements the counter. It never rejects.
\<close>

definition lockRelease :: "string \<Rightarrow> acquired_lock \<Rightarrow> lock_service \<Rightarrow> lock_service" where
  "lockRelease resource lck s =
     (let s1 = emit (Logged Debug (LockCounterAt resource (lockCounter_get (lockCounter s) resource))) s;
          s2 = emit (BackendUnlock resource) s1;
          s3 = (case unlock lck of
                  None \<Rightarrow> s2
                | Some err \<Rightarrow> emit (Logged LogError (ReleasingThrew resource (message err))) s2)
      in s3\<lparr>lockCounter := decreaseLockCounter resource (lockCounter s3)\<rparr>)"

definition createLockRelease ::
  "string \<Rightarrow> acquired_lock \<Rightarrow> lock_service \<Rightarrow> (lock_service \<Rightarrow> lock_service) \<times> lock_service" where
  "createLockRelease resource lck s =
     (lockRelease resource lck,
      s\<lparr>lockCounter := increaseLockCounter resource (lockCounter s)\<rparr>)"

text \<open>
  The private method \<open>lock(resource, ttl)\<close>. \<open>acq\<close> is what
  \<open>this.distributedLock.acquire([resource], ttl)\<close> settles to: the lock, or the error
  that the method logs and rethrows.
\<close>

definition lock ::
  "js_error + acquired_lock \<Rightarrow> string \<Rightarrow> int \<Rightarrow> lock_service \<Rightarrow>
   (js_error + (lock_service \<Rightarrow> lock_service)) \<times> lock_service" where
  "lock acq resource ttl s =
     (let s0 = emit (BackendAcquire resource ttl) s in
      case acq of
        Inr acquiredLock \<Rightarrow>
          (let s1 = emit (Logged Verbose (LockAcquired resource ttl)) s0;
               (releaseLock, s2) = createLockRelease resource acquiredLock s1
           in (Inr releaseLock, s2))
      | Inl err \<Rightarrow> (Inl err, emit (Logged Verbose (LockThrew resource (message err))) s0))"

text \<open>
  \<open>applyLock({resource, ttl}, handler)\<close>. The handler is any computation over the
  service state that settles with a value (\<open>Inr\<close>) or throws (\<open>Inl\<close>). The
  \<open>try/finally\<close> runs the release after the handler in both cases and keeps the
  handler's outcome.
\<close>

definition applyLock ::
  "js_error + acquired_lock \<Rightarrow> string \<Rightarrow> int \<Rightarrow>
   (lock_service \<Rightarrow> (js_error + 'a) \<times> lock_service) \<Rightarrow>
   lock_service \<Rightarrow> (js_error + 'a) \<times> lock_service" where
  "applyLock acq resource ttl handler s =
     (case isDistributedLockEnabled s of
        (False, s0) \<Rightarrow> handler s0
      | (True, s0) \<Rightarrow>
          (case lock acq resource ttl s0 of
             (Inl err, s1) \<Rightarrow> (Inl err, s1)
           | (Inr releaseLock, s1) \<Rightarrow>
               (let s2 = emit (Logged Debug (LockFor resource)) s1;
                    (outcome, s3) = handler s2;
                    s4 = releaseLock s3;
                    s5 = emit (Logged Debug (LockReleasedFor resource)) s4
                in (outcome, s5))))"

text \<open>The state in which \<open>applyLock\<close> starts the handler once the lock is acquired.\<close>

definition locked_state :: "string \<Rightarrow> int \<Rightarrow> lock_service \<Rightarrow> lock_service" where
  "locked_state resource ttl s =
     emit (Logged Debug (LockFor resource))
       ((emit (Logged Verbose (LockAcquired resource ttl)) (emit (BackendAcquire resource ttl) s))
          \<lparr>lockCounter := increaseLockCounter resource (lockCounter s)\<rparr>)"

text \<open>The events that one run of the release closure appends to the trace.\<close>

definition release_events :: "string \<Rightarrow> acquired_lock \<Rightarrow> lock_service \<Rightarrow> lock_event list" where
  "release_events resource lck s =
     [Logged Debug (LockCounterAt resource (lockCounter_get (lockCounter s) resource)), BackendUnlock resource]
     @ (case unlock lck of None \<Rightarrow> [] | Some err \<Rightarrow> [Logged LogError (ReleasingThrew resource (message err))])"

subsection \<open>The service under interleaving\<close>

text \<open>
  \<open>applyLock\<close> and \<open>shutdown\<close> are \<open>async\<close> functions: each runs without interruption
  up to its next \<open>await\<close>, where other calls may run. A call in progress is therefore a
  program counter, and \<open>applyLock_resume\<close> and \<open>shutdown_resume\<close> run one call from one
  \<open>await\<close> to the next. The program counters of \<open>applyLock\<close>:
\<close>

datatype apply_pc =
    NotCalled
  | Acquiring
  | Acquired acquired_lock
  | InHandler acquired_lock
  | Unprotected
  | Unlocking acquired_lock
  | Released
  | Settled

text \<open>One call of \<open>applyLock\<close>: its arguments, what the backend will answer to its
  acquire, and where it stands.\<close>

record lock_task =
  t_resource :: string
  t_ttl :: int
  t_acq :: "js_error + acquired_lock"
  t_pc :: apply_pc

text \<open>
  \<^item> \<open>NotCalled\<close>: the call starts, tests \<open>isDistributedLockEnabled()\<close>, and either calls
    the handler unprotected or calls \<open>distributedLock.acquire\<close> and waits;
  \<^item> \<open>Acquiring\<close>: the acquire has settled; \<open>lock\<close> logs and, on success, runs
    \<open>createLockRelease\<close> (which increments the counter); on failure \<open>applyLock\<close>
    rejects;
  \<^item> \<open>Acquired\<close>: \<open>applyLock\<close> continues after \<open>await this.lock(...)\<close>, logs and calls
    the handler;
  \<^item> \<open>InHandler\<close>: the handler has settled; the \<open>finally\<close> block calls the release
    closure, which logs the counter and calls \<open>lock.unlock()\<close>;
  \<^item> \<open>Unlocking\<close>: the unlock has settled; the closure logs its error, if any, and
    decrements the counter;
  \<^item> \<open>Released\<close>: \<open>applyLock\<close> continues after \<open>await releaseLock()\<close>, logs, and
    settles with the outcome of the handler;
  \<^item> \<open>Unprotected\<close>: the unprotected handler has settled, and so does \<open>applyLock\<close>.
\<close>

definition applyLock_resume :: "lock_task \<Rightarrow> lock_service \<Rightarrow> apply_pc \<times> lock_service" where
  "applyLock_resume t s =
     (case t_pc t of
        NotCalled \<Rightarrow>
          (case isDistributedLockEnabled s of
             (False, s0) \<Rightarrow> (Unprotected, s0)
           | (True, s0) \<Rightarrow> (Acquiring, emit (BackendAcquire (t_resource t) (t_ttl t)) s0))
      | Acquiring \<Rightarrow>
          (case t_acq t of
             Inr acquiredLock \<Rightarrow>
               (Acquired acquiredLock,
                snd (createLockRelease (t_resource t) acquiredLock
                       (emit (Logged Verbose (LockAcquired (t_resource t) (t_ttl t))) s)))
           | Inl err \<Rightarrow> (Settled, emit (Logged Verbose (LockThrew (t_resource t) (message err))) s))
      | Acquired lck \<Rightarrow> (InHandler lck, emit (Logged Debug (LockFor (t_resource t))) s)
      | InHandler lck \<Rightarrow>
          (Unlocking lck,
           emit (BackendUnlock (t_resource t))
             (emit (Logged Debug (LockCounterAt (t_resource t) (lockCounter_get (lockCounter s) (t_resource t)))) s))
      | Unprotected \<Rightarrow> (Settled, s)
      | Unlocking lck \<Rightarrow>
          (let s3 = (case unlock lck of
                       None \<Rightarrow> s
                     | Some err \<Rightarrow> emit (Logged LogError (ReleasingThrew (t_resource t) (message err))) s)
           in (Released, s3\<lparr>lockCounter := decreaseLockCounter (t_resource t) (lockCounter s3)\<rparr>))
      | Released \<Rightarrow> (Settled, emit (Logged Debug (LockReleasedFor (t_resource t))) s)
      | Settled \<Rightarrow> (Settled, s))"

text \<open>
  \<open>shutdown()\<close>:
  \<^verbatim>\<open>
  if (this.distributedLock) {
    while (!this.areAllLocksReleased()) { await setTimeout(250); }
    if (!this.shuttingDown) {
      try { this.shuttingDown = true; await this.distributedLock.quit(); }
      catch (error) { Logger.verbose(...) }
      finally { this.shuttingDown = false; this.distributedLock = undefined; }
    }
  }\<close>
  Its program counters: not yet called; \<open>Polling d\<close>, waiting inside the loop for a
  timer of \<open>d\<close> milliseconds; \<open>Quitting\<close>, waiting for \<open>quit()\<close>; returned. Time itself
  is not modelled: a resumption from \<open>Polling d\<close> is the expiry of that timer.
\<close>

datatype shutdown_pc = ShutdownNotCalled | Polling int | Quitting | ShutdownReturned

text \<open>The \<open>finally\<close> block.\<close>

definition shutdown_finally :: "lock_service \<Rightarrow> shutdown_pc \<times> lock_service" where
  "shutdown_finally s =
     (ShutdownReturned,
      emit (Logged Verbose RedlockShutdown) (s\<lparr>shuttingDown := False, distributedLock := False\<rparr>))"

text \<open>
  The code after the loop. When \<open>this.distributedLock\<close> is \<open>undefined\<close> by now (another
  call has finished its \<open>finally\<close> in between), evaluating \<open>this.distributedLock.quit\<close>
  throws a \<open>TypeError\<close> inside the \<open>try\<close>: no call reaches the backend, and the
  \<open>catch\<close> and \<open>finally\<close> blocks run at once.
\<close>

definition shutdown_after_loop :: "lock_service \<Rightarrow> shutdown_pc \<times> lock_service" where
  "shutdown_after_loop s =
     (if \<not> shuttingDown s then
        (let s1 = (emit (Logged Verbose RedlockShuttingDown) s)\<lparr>shuttingDown := True\<rparr> in
         if distributedLock s1 then (Quitting, emit BackendQuit s1)
         else shutdown_finally
                (emit (Logged Verbose (ErrorQuitting ''Cannot read properties of undefined'')) s1))
      else (ShutdownReturned, s))"

text \<open>One test of the loop condition.\<close>

definition shutdown_loop :: "lock_service \<Rightarrow> shutdown_pc \<times> lock_service" where
  "shutdown_loop s =
     (if \<not> areAllLocksReleased s then (Polling 250, s) else shutdown_after_loop s)"

text \<open>\<open>q\<close> is what \<open>quit()\<close> settles to; it is read only when the call is \<open>Quitting\<close>.\<close>

definition shutdown_resume ::
  "shutdown_pc \<Rightarrow> js_error option \<Rightarrow> lock_service \<Rightarrow> shutdown_pc \<times> lock_service" where
  "shutdown_resume p q s =
     (case p of
        ShutdownNotCalled \<Rightarrow> (if distributedLock s then shutdown_loop s else (ShutdownReturned, s))
      | Polling d \<Rightarrow> shutdown_loop s
      | Quitting \<Rightarrow>
          shutdown_finally
            (case q of None \<Rightarrow> s | Some err \<Rightarrow> emit (Logged Verbose (ErrorQuitting (message err))) s)
      | ShutdownReturned \<Rightarrow> (ShutdownReturned, s))"

text \<open>
  The whole process: the service, the \<open>applyLock\<close> calls and the \<open>shutdown\<close> calls.
  A schedule is a list of actions, each resuming one call; an action that names no
  call does nothing.
\<close>

record system =
  service :: lock_service
  tasks :: "lock_task list"
  drains :: "shutdown_pc list"

datatype action = Task nat | Drain nat "js_error option"

fun system_step :: "action \<Rightarrow> system \<Rightarrow> system" where
  "system_step (Task i) st =
     (if i < length (tasks st) then
        (let t = tasks st ! i; (p, s) = applyLock_resume t (service st)
         in st\<lparr>service := s, tasks := (tasks st)[i := t\<lparr>t_pc := p\<rparr>]\<rparr>)
      else st)"
| "system_step (Drain j q) st =
     (if j < length (drains st) then
        (let (p, s) = shutdown_resume (drains st ! j) q (service st)
         in st\<lparr>service := s, drains := (drains st)[j := p]\<rparr>)
      else st)"

definition run :: "action list \<Rightarrow> system \<Rightarrow> system" where
  "run acts st = fold system_step acts st"

text \<open>
  The process after the constructor: \<open>startup\<close> has created the Redlock instance iff a
  client was given, the counter object is empty, and no call has started.
\<close>

definition new_task :: "string \<times> int \<times> (js_error + acquired_lock) \<Rightarrow> lock_task" where
  "new_task c = \<lparr>t_resource = fst c, t_ttl = fst (snd c), t_acq = snd (snd c), t_pc = NotCalled\<rparr>"

definition initial ::
  "bool \<Rightarrow> (string \<times> int \<times> (js_error + acquired_lock)) list \<Rightarrow> nat \<Rightarrow> system" where
  "initial client calls n =
     \<lparr>service = \<lparr>distributedLock = client, lockCounter = [], shuttingDown = False, trace = []\<rparr>,
      tasks = map new_task calls,
      drains = replicate n ShutdownNotCalled\<rparr>"

text \<open>A call holds its lock between the increment and the decrement of the counter.\<close>

fun holds :: "apply_pc \<Rightarrow> bool" where
  "holds (Acquired _) = True"
| "holds (InHandler _) = True"
| "holds (Unlocking _) = True"
| "holds _ = False"

definition holding :: "lock_task list \<Rightarrow> string \<Rightarrow> nat" where
  "holding ts r = length (filter (\<lambda>t. t_resource t = r \<and> holds (t_pc t)) ts)"

definition quits :: "lock_service \<Rightarrow> nat" where
  "quits s = length (filter (\<lambda>e. e = BackendQuit) (trace s))"

text \<open>
  The invariant that ties the counter object to the calls in progress, when no call
  names its resource like a member of \<open>Object.prototype\<close>: no key occurs twice, a
  resource that was never locked has no entry, and every entry is the number of calls
  that hold a lock on its resource.
\<close>

definition counters_match :: "lock_task list \<Rightarrow> lock_counter \<Rightarrow> bool" where
  "counters_match ts c \<longleftrightarrow>
     list_all (\<lambda>t. t_resource t \<notin> set object_prototype_names) ts \<and>
     distinct (map fst c) \<and>
     (\<forall>r. (map_of c r = None \<and> holding ts r = 0) \<or> map_of c r = Some (Num (int (holding ts r))))"

text \<open>
  The invariant of the shutdown calls: \<open>shuttingDown\<close> is set exactly while one call
  waits for \<open>quit()\<close>, and then the Redlock instance is still defined; the backend has
  seen no quit while the instance is defined and the flag is clear, and one quit
  otherwise; and once a call has returned, that second state has been reached.
\<close>

definition drain_inv :: "system \<Rightarrow> bool" where
  "drain_inv st \<longleftrightarrow>
     length (filter (\<lambda>p. p = Quitting) (drains st)) = (if shuttingDown (service st) then 1 else 0)
   \<and> (shuttingDown (service st) \<longrightarrow> distributedLock (service st))
   \<and> quits (service st) = (if distributedLock (service st) \<and> \<not> shuttingDown (service st) then 0 else 1)
   \<and> (ShutdownReturned \<in> set (drains st) \<longrightarrow>
        \<not> (distributedLock (service st) \<and> \<not> shuttingDown (service st)))"

text \<open>
  One resumption of a call of \<open>applyLock\<close> with the given arguments, as a state
  transformer and as the next program counter; used to compare the resumptions with
  \<open>applyLock\<close> run without interference.
\<close>

definition segment ::
  "string \<Rightarrow> int \<Rightarrow> js_error + acquired_lock \<Rightarrow> apply_pc \<Rightarrow> lock_service \<Rightarrow> lock_service" where
  "segment resource ttl acq p s =
     snd (applyLock_resume \<lparr>t_resource = resource, t_ttl = ttl, t_acq = acq, t_pc = p\<rparr> s)"

definition next_pc ::
  "string \<Rightarrow> int \<Rightarrow> js_error + acquired_lock \<Rightarrow> apply_pc \<Rightarrow> lock_service \<Rightarrow> apply_pc" where
  "next_pc resource ttl acq p s =
     fst (applyLock_resume \<lparr>t_resource = resource, t_ttl = ttl, t_acq = acq, t_pc = p\<rparr> s)"

section \<open>Cache service (cache.service.ts) and cache invalidation\<close>

subsection \<open>The backend\<close>

text \<open>
  The key-value backend is outside the repository. Its model keeps, per key, a string
  or a set of members, with the expiry last given for it; the clock, and so the
  expiry of keys, is not modelled. \<open>b_calls\<close> records every round trip to the backend:
  a single command, or the commands of one pipeline.
\<close>

datatype redis_content = RString string | RSet "string list"

datatype redis_entry = Entry redis_content "real option"

datatype command =
    Sadd string string
  | Expire string real
  | SetEx string string int
  | Del "string list"
  | Smembers string
  | Get string
  | Scan string

record backend =
  b_store :: "string \<Rightarrow> redis_entry option"
  b_calls :: "command list list"

text \<open>What a command does to the stored keys. \<open>SADD\<close> on a key that holds a string
  fails with \<open>WRONGTYPE\<close> and changes nothing; the reading commands change nothing.\<close>

fun apply_command :: "command \<Rightarrow> (string \<Rightarrow> redis_entry option) \<Rightarrow> (string \<Rightarrow> redis_entry option)" where
  "apply_command (Sadd k m) st =
     (case st k of
        None \<Rightarrow> st(k \<mapsto> Entry (RSet [m]) None)
      | Some (Entry (RSet ms) e) \<Rightarrow> st(k \<mapsto> Entry (RSet (List.insert m ms)) e)
      | Some (Entry (RString v) e) \<Rightarrow> st)"
| "apply_command (Expire k t) st =
     (case st k of None \<Rightarrow> st | Some (Entry c e) \<Rightarrow> st(k \<mapsto> Entry c (Some t)))"
| "apply_command (SetEx k v t) st = st(k \<mapsto> Entry (RString v) (Some (real_of_int t)))"
| "apply_command (Del ks) st = (\<lambda>k. if k \<in> set ks then None else st k)"
| "apply_command (Smembers k) st = st"
| "apply_command (Get k) st = st"
| "apply_command (Scan p) st = st"

text \<open>One command sent on its own, and one pipeline sent with \<open>exec()\<close>: the commands
  run in order.\<close>

definition send :: "command \<Rightarrow> backend \<Rightarrow> backend" where
  "send c b = \<lparr>b_store = apply_command c (b_store b), b_calls = b_calls b @ [[c]]\<rparr>"

definition exec_pipeline :: "command list \<Rightarrow> backend \<Rightarrow> backend" where
  "exec_pipeline cs b = \<lparr>b_store = fold apply_command cs (b_store b), b_calls = b_calls b @ [cs]\<rparr>"

text \<open>The replies the service reads: the members of a set, and the value of a key.\<close>

definition smembers_reply :: "(string \<Rightarrow> redis_entry option) \<Rightarrow> string \<Rightarrow> js_error + string list" where
  "smembers_reply st k =
     (case st k of
        None \<Rightarrow> Inr []
      | Some (Entry (RSet ms) e) \<Rightarrow> Inr ms
      | Some (Entry (RString v) e) \<Rightarrow> Inl (JsError ''WRONGTYPE''))"

definition get_reply :: "(string \<Rightarrow> redis_entry option) \<Rightarrow> string \<Rightarrow> js_error + string option" where
  "get_reply st k =
     (case st k of
        None \<Rightarrow> Inr None
      | Some (Entry (RString v) e) \<Rightarrow> Inr (Some v)
      | Some (Entry (RSet ms) e) \<Rightarrow> Inl (JsError ''WRONGTYPE''))"

text \<open>\<open>DEL\<close> with at least one key answers the number of keys it removed. Without a
  key the command is refused with an error, and nothing is removed.\<close>

definition del_reply :: "(string \<Rightarrow> redis_entry option) \<Rightarrow> string list \<Rightarrow> js_error + int" where
  "del_reply st ks =
     (if ks = [] then Inl (JsError ''ERR wrong number of arguments for 'del' command'')
      else Inr (int (length (filter (\<lambda>k. st k \<noteq> None) (remdups ks)))))"

subsection \<open>Numbers\<close>

text \<open>
  The numbers of the code are IEEE 754 doubles, and every arithmetic operation gives
  the double nearest to the exact result, a tie going to the even significand. A
  finite double is modelled by the real number it stands for, and each operation of
  the code by the exact operation followed by the rounding \<open>fl64\<close>. The rounding keeps
  53 significant bits whatever the exponent: the model agrees with the code as long
  as every intermediate result lies in the normal range of doubles (between
  \<open>2 ^ -1022\<close> and \<open>2 ^ 1024\<close> in magnitude, or zero). Subnormal results, overflow to
  \<open>Infinity\<close> and \<open>NaN\<close> are not modelled.

  \<open>expo x\<close> is the binary exponent of a positive \<open>x\<close>: the \<open>e\<close> with \<open>2 ^ e \<le> x < 2 ^ (e + 1)\<close>.
\<close>

function expo :: "real \<Rightarrow> int" where
  "expo x =
     (if x < 1 then (if 0 < x then expo (2 * x) - 1 else 0)
      else if 2 \<le> x then expo (x / 2) + 1
      else 0)"
  by pat_completeness auto
termination
proof (relation "measure (\<lambda>x. if 1 \<le> x then nat \<lfloor>x\<rfloor> else nat \<lceil>1 / x\<rceil>)")
  show "wf (measure (\<lambda>x. if 1 \<le> x then nat \<lfloor>x\<rfloor> else nat \<lceil>1 / x\<rceil>))" by simp
next
  fix x :: real
  assume a: "x < 1" "0 < x"
  show "(2 * x, x) \<in> measure (\<lambda>x. if 1 \<le> x then nat \<lfloor>x\<rfloor> else nat \<lceil>1 / x\<rceil>)"
  proof (cases "1 \<le> 2 * x")
    case True
    then have "\<lfloor>2 * x\<rfloor> = 1" using a by linarith
    moreover have "1 < 1 / x" using a by simp
    then have "2 \<le> \<lceil>1 / x\<rceil>" by linarith
    ultimately show ?thesis using a True by simp
  next
    case False
    define y where "y = 1 / x"
    have h: "2 < y" using a False by (simp add: y_def field_simps)
    have e: "1 / (2 * x) = y / 2" by (simp add: y_def)
    have "real_of_int \<lceil>y / 2\<rceil> < y / 2 + 1" by linarith
    also have "\<dots> < y" using h by linarith
    also have "\<dots> \<le> real_of_int \<lceil>y\<rceil>" by simp
    finally have "\<lceil>1 / (2 * x)\<rceil> < \<lceil>1 / x\<rceil>" unfolding e y_def by simp
    moreover have "0 < \<lceil>1 / x\<rceil>" using a by (simp add: less_ceiling_iff)
    ultimately show ?thesis using a False by simp
  qed
next
  fix x :: real
  assume a: "\<not> x < 1" "2 \<le> x"
  have "real_of_int \<lfloor>x / 2\<rfloor> \<le> x / 2" by (rule of_int_floor_le)
  also have "\<dots> \<le> x - 1" using a by linarith
  also have "\<dots> < real_of_int \<lfloor>x\<rfloor>" by linarith
  finally have "real_of_int \<lfloor>x / 2\<rfloor> < real_of_int \<lfloor>x\<rfloor>" .
  then have "\<lfloor>x / 2\<rfloor> < \<lfloor>x\<rfloor>" by simp
  moreover have "0 < \<lfloor>x\<rfloor>" using a by simp
  ultimately show "(x / 2, x) \<in> measure (\<lambda>x. if 1 \<le> x then nat \<lfloor>x\<rfloor> else nat \<lceil>1 / x\<rceil>)"
    using a by simp
qed

text \<open>Rounding to the nearest integer, a tie going to the even one.\<close>

definition round_half_even :: "real \<Rightarrow> int" where
  "round_half_even y =
     (let n = \<lfloor>y\<rfloor>; d = y - real_of_int n
      in if d < 1 / 2 then n else if 1 / 2 < d then n + 1 else if even n then n else n + 1)"

text \<open>
  \<open>fl64 x\<close> is the double nearest to \<open>x\<close>: the multiple of \<open>2 ^ (e - 52)\<close> nearest to \<open>x\<close>,
  where \<open>e\<close> is the binary exponent of \<open>x\<close>, a tie going to the even significand.
\<close>

definition fl64 :: "real \<Rightarrow> real" where
  "fl64 x =
     (if x = 0 then 0
      else (let q = 2 powi (expo \<bar>x\<bar> - 52) in real_of_int (round_half_even (x / q)) * q))"

subsection \<open>The service\<close>

text \<open>
  The service reads three things from \<open>InMemoryProviderService\<close>: the client (here
  whether it is defined), the result of \<open>isClientReady()\<close>, whose code is not part of
  the sources at hand and is therefore a field of its own, and the configured TTL.
\<close>

record cache_service =
  cs_client :: bool
  cs_ready :: bool
  cs_cacheTtl :: real

datatype js_value = Undefined | JsNull | JsString string | JsNumber int | PendingPromise

definition cacheEnabled :: "cache_service \<Rightarrow> bool" where
  "cacheEnabled cs = cs_ready cs"

text \<open>\<^verbatim>\<open>private readonly TTL_VARIANT_PERCENTAGE = 0.1;\<close> The literal denotes the double
  nearest to one tenth.\<close>

definition TTL_VARIANT_PERCENTAGE :: real where
  "TTL_VARIANT_PERCENTAGE = fl64 (1 / 10)"

text \<open>
  \<^verbatim>\<open>const variant = this.TTL_VARIANT_PERCENTAGE * num * Math.random();
  return Math.floor(num - (this.TTL_VARIANT_PERCENTAGE * num) / 2 + variant);\<close>
  The draw of \<open>Math.random()\<close> is the argument \<open>random\<close>. The operations are rounded
  one by one, in the order in which the expression is evaluated: the two products of
  \<open>variant\<close> from left to right, then the product, the quotient, the difference and
  the sum of the second line.
\<close>

definition ttlVariant :: "real \<Rightarrow> real \<Rightarrow> int" where
  "ttlVariant num random =
     (let variant = fl64 (fl64 (TTL_VARIANT_PERCENTAGE * num) * random)
      in \<lfloor>fl64 (fl64 (num - fl64 (fl64 (TTL_VARIANT_PERCENTAGE * num) / 2)) + variant)\<rfloor>)"

text \<open>\<^verbatim>\<open>const seconds = options?.ttl || this.cacheTtl;\<close> A missing \<open>ttl\<close> and a
  \<open>ttl\<close> of zero both fall back to the configured TTL.\<close>

definition getTtlInSeconds :: "real option \<Rightarrow> cache_service \<Rightarrow> real \<Rightarrow> int" where
  "getTtlInSeconds ttl cs random =
     (let seconds = (case ttl of
                       None \<Rightarrow> cs_cacheTtl cs
                     | Some t \<Rightarrow> if t \<noteq> 0 then t else cs_cacheTtl cs)
      in ttlVariant seconds random)"

text \<open>\<open>set\<close> does not await the client: it resolves with \<open>undefined\<close> in every case.\<close>

definition cache_set ::
  "cache_service \<Rightarrow> string \<Rightarrow> string \<Rightarrow> real option \<Rightarrow> real \<Rightarrow> backend \<Rightarrow> (js_error + js_value) \<times> backend" where
  "cache_set cs key val ttl random b =
     (if cs_client cs then (Inr Undefined, send (SetEx key val (getTtlInSeconds ttl cs random)) b)
      else (Inr Undefined, b))"

definition cache_get :: "cache_service \<Rightarrow> string \<Rightarrow> backend \<Rightarrow> (js_error + js_value) \<times> backend" where
  "cache_get cs key b =
     (if cs_client cs then
        (case get_reply (b_store b) key of
           Inl err \<Rightarrow> (Inl err, send (Get key) b)
         | Inr None \<Rightarrow> (Inr JsNull, send (Get key) b)
         | Inr (Some v) \<Rightarrow> (Inr (JsString v), send (Get key) b))
      else (Inr Undefined, b))"

text \<open>\<^verbatim>\<open>const keys = Array.isArray(key) ? key : [key]; return this.client?.del(keys);\<close>
  The call settles as the command does: it rejects for an empty array of keys.\<close>

definition cache_del :: "cache_service \<Rightarrow> string list \<Rightarrow> backend \<Rightarrow> (js_error + js_value) \<times> backend" where
  "cache_del cs keys b =
     (if cs_client cs then
        (case del_reply (b_store b) keys of
           Inl err \<Rightarrow> (Inl err, send (Del keys) b)
         | Inr n \<Rightarrow> (Inr (JsNumber n), send (Del keys) b))
      else (Inr Undefined, b))"

text \<open>
  \<open>String.prototype.split\<close> with a non-empty separator: the pieces between the
  occurrences of the separator, found from left to right without overlap.
  \<open>acc\<close> holds, reversed, the characters of the piece under way.
\<close>

function js_split_from :: "string \<Rightarrow> string \<Rightarrow> string \<Rightarrow> string list" where
  "js_split_from sep acc [] = [rev acc]"
| "js_split_from sep acc (c # cs) =
     (if sep \<noteq> [] \<and> take (length sep) (c # cs) = sep
      then rev acc # js_split_from sep [] (drop (length sep) (c # cs))
      else js_split_from sep (c # acc) cs)"
  by pat_completeness auto
termination
  by (relation "measure (\<lambda>(sep, acc, s). length s)") auto

definition js_split :: "string \<Rightarrow> string \<Rightarrow> string list" where
  "js_split sep s = js_split_from sep [] s"

text \<open>\<open>Array.prototype.join\<close>, to state what \<open>split\<close> returns.\<close>

fun js_join :: "string \<Rightarrow> string list \<Rightarrow> string" where
  "js_join sep [] = []"
| "js_join sep [p] = p"
| "js_join sep (p # q # ps) = p @ sep @ js_join sep (q # ps)"

text \<open>\<open>QUERY_PREFIX\<close> is imported from a file that is not part of the sources at hand:
  it is the parameter \<open>qp\<close>.\<close>

definition keyDelimiter :: "string \<Rightarrow> string" where
  "keyDelimiter qp = '':'' @ qp @ ''=''"

text \<open>\<open>splitKey\<close>: \<open>keyParts[0]\<close> and \<open>keyParts[1]\<close>, the latter \<open>undefined\<close> when the
  key holds no delimiter. (\<open>split\<close> never returns an empty array.)\<close>

definition splitKey :: "string \<Rightarrow> string \<Rightarrow> string \<times> string option" where
  "splitKey qp key =
     (case js_split (keyDelimiter qp) key of
        [] \<Rightarrow> ([], None)
      | credentials # rest \<Rightarrow> (credentials, case rest of [] \<Rightarrow> None | query # others \<Rightarrow> Some query))"

text \<open>The client library sends an \<open>undefined\<close> argument as the empty string.\<close>

fun toArg :: "string option \<Rightarrow> string" where
  "toArg None = []"
| "toArg (Some a) = a"

text \<open>\<open>setQuery\<close>: one pipeline of \<open>sadd\<close>, \<open>expire\<close> and \<open>set\<close>. \<open>getTtlInSeconds\<close> is
  called twice, with the draws \<open>random1\<close> and \<open>random2\<close>.\<close>

definition setQuery ::
  "string \<Rightarrow> cache_service \<Rightarrow> string \<Rightarrow> string \<Rightarrow> real option \<Rightarrow> real \<Rightarrow> real \<Rightarrow> backend \<Rightarrow>
   (js_error + js_value) \<times> backend" where
  "setQuery qp cs key val ttl random1 random2 b =
     (if cs_client cs then
        (let (credentials, query) = splitKey qp key;
             pipeline =
               [Sadd credentials (toArg query),
                Expire credentials (fl64 (cs_cacheTtl cs + real_of_int (getTtlInSeconds ttl cs random1))),
                SetEx key val (getTtlInSeconds ttl cs random2)]
         in (Inr Undefined, exec_pipeline pipeline b))
      else (Inr Undefined, b))"

text \<open>
  \<open>delQuery\<close>: reads the members of the set, returns when there are none, and
  otherwise deletes, in one pipeline, the entry of every member and then the set.
  A failing \<open>smembers\<close> rejects the call.
\<close>

definition delQuery ::
  "string \<Rightarrow> cache_service \<Rightarrow> string \<Rightarrow> backend \<Rightarrow> (js_error + js_value) \<times> backend" where
  "delQuery qp cs key b =
     (if cs_client cs then
        (case smembers_reply (b_store b) key of
           Inl err \<Rightarrow> (Inl err, send (Smembers key) b)
         | Inr queries \<Rightarrow>
             (let b1 = send (Smembers key) b in
              if length queries = 0 then (Inr Undefined, b1)
              else
                (let pipeline = map (\<lambda>query. Del [key @ '':'' @ qp @ ''='' @ query]) queries @ [Del [key]]
                 in (Inr Undefined, exec_pipeline pipeline b1))))
      else (Inr Undefined, b))"

subsection \<open>delByPattern\<close>

text \<open>
  \<open>delByPattern\<close> returns \<open>undefined\<close> without a client. With one it returns a promise
  and opens the scan stream; what happens next is driven by events: a page of keys
  from the stream, the settling of the \<open>exec()\<close> of the oldest pipeline in flight, the
  end of the stream, an error of the stream. A promise keeps its first settlement.
\<close>

datatype promise = Pending | Resolved | Rejected js_error

record scan_state =
  sc_promise :: promise
  sc_backend :: backend
  sc_inflight :: "string list list"

datatype stream_event = Data "string list" | ExecSettled "js_error option" | End | StreamError js_error

definition resolve :: "scan_state \<Rightarrow> scan_state" where
  "resolve s = (if sc_promise s = Pending then s\<lparr>sc_promise := Resolved\<rparr> else s)"

definition reject :: "js_error \<Rightarrow> scan_state \<Rightarrow> scan_state" where
  "reject err s = (if sc_promise s = Pending then s\<lparr>sc_promise := Rejected err\<rparr> else s)"

definition delByPattern :: "cache_service \<Rightarrow> string \<Rightarrow> backend \<Rightarrow> js_value \<times> scan_state" where
  "delByPattern cs pattern b =
     (if cs_client cs then
        (PendingPromise, \<lparr>sc_promise = Pending, sc_backend = send (Scan pattern) b, sc_inflight = []\<rparr>)
      else (Undefined, \<lparr>sc_promise = Pending, sc_backend = b, sc_inflight = []\<rparr>))"

text \<open>
  \<^verbatim>\<open>stream.on('data', function (keys) {
    if (keys.length) {
      const pipeline = client.pipeline();
      keys.forEach(function (key) { pipeline.del(key); });
      pipeline.exec().then(resolve).catch(reject);
    }
  });
  stream.on('end', () => { resolve(undefined); });
  stream.on('error', (err) => { reject(err); });\<close>
  The pipeline is sent when a page arrives; its deletions take effect, in this model,
  when its \<open>exec()\<close> settles with success. An \<open>ExecSettled\<close> with no pipeline in
  flight does nothing.
\<close>

fun on_event :: "stream_event \<Rightarrow> scan_state \<Rightarrow> scan_state" where
  "on_event (Data keys) s =
     (if length keys \<noteq> 0 then
        s\<lparr>sc_backend := (sc_backend s)\<lparr>b_calls := b_calls (sc_backend s) @ [map (\<lambda>key. Del [key]) keys]\<rparr>,
          sc_inflight := sc_inflight s @ [keys]\<rparr>
      else s)"
| "on_event (ExecSettled outcome) s =
     (case sc_inflight s of
        [] \<Rightarrow> s
      | keys # rest \<Rightarrow>
          (case outcome of
             None \<Rightarrow>
               resolve
                 (s\<lparr>sc_backend := (sc_backend s)
                        \<lparr>b_store := fold apply_command (map (\<lambda>key. Del [key]) keys) (b_store (sc_backend s))\<rparr>,
                    sc_inflight := rest\<rparr>)
           | Some err \<Rightarrow> reject err (s\<lparr>sc_inflight := rest\<rparr>)))"
| "on_event End s = resolve s"
| "on_event (StreamError err) s = reject err s"

definition on_events :: "stream_event list \<Rightarrow> scan_state \<Rightarrow> scan_state" where
  "on_events evs s = fold on_event evs s"

subsection \<open>InvalidateCacheService\<close>

text \<open>\<open>cacheService\<close> may be undefined (\<open>this.cacheService?.cacheEnabled()\<close>): it is an
  option. Errors of the cache call are caught and written to the console.\<close>

definition invalidateByKey ::
  "cache_service option \<Rightarrow> string \<Rightarrow> backend \<Rightarrow> (js_error + js_value) \<times> backend" where
  "invalidateByKey cacheService key b =
     (case cacheService of
        None \<Rightarrow> (Inr Undefined, b)
      | Some cs \<Rightarrow>
          (if \<not> cacheEnabled cs then (Inr Undefined, b)
           else (Inr Undefined, snd (cache_del cs [key] b))))"

definition invalidateQuery ::
  "string \<Rightarrow> cache_service option \<Rightarrow> string \<Rightarrow> backend \<Rightarrow> (js_error + js_value) \<times> backend" where
  "invalidateQuery qp cacheService key b =
     (case cacheService of
        None \<Rightarrow> (Inr Undefined, b)
      | Some cs \<Rightarrow>
          (if \<not> cacheEnabled cs then (Inr Undefined, b)
           else (Inr Undefined, snd (delQuery qp cs key b))))"

section \<open>Failure handler of the workflow queue (WorkflowQueueService.jobHasFailed)\<close>

text \<open>
  The handler only reads the job and the error and calls three collaborators; the model
  records the calls, in order, with the commands they are given. The collaborators
  are taken to resolve. \<open>this.runJob.shouldBackoff(error)\<close> belongs to a class that is
  not part of the sources at hand: its answer is the input \<open>hasToBackoff\<close>.
\<close>

datatype json =
    JNull
  | JBool bool
  | JNumber int
  | JString string
  | JArray "json list"
  | JObject "(string \<times> json) list"

text \<open>
  The handler reads \<open>error.message\<close> through \<open>JSON.parse\<close> only. The message is therefore
  kept as what \<open>JSON.parse\<close> makes of it: a text that is not JSON, or the value that
  the text denotes (for an object, its properties, each name once).
\<close>

datatype error_message = NotJson string | JsonText json

datatype job_error = JobError (err_message: error_message)

datatype thrown = SyntaxError | TypeError | ApiException string

record job_step =
  shouldStopOnFail :: "bool option"

record job_data =
  jd_id :: string
  jd_environmentId :: string
  jd_organizationId :: string
  jd_userId :: string
  jd_step :: "job_step option"

record queue_job =
  job_data :: job_data
  attemptsMade :: nat

datatype detail_enum = MESSAGE_CREATED | MESSAGE_SENT | WEBHOOK_FILTER_FAILED_LAST_RETRY

datatype execution_details_source = INTERNAL | WEBHOOK

datatype execution_details_status = SUCCESS | PENDING

record set_job_as_failed_command =
  sf_environmentId :: string
  sf_error :: job_error
  sf_jobId :: string
  sf_organizationId :: string

text \<open>\<open>getDetailsFromJob(job.data)\<close> is not part of the sources at hand: the command
  keeps the job data it is spread from.\<close>

record create_execution_details_command =
  ed_detailsFromJob :: job_data
  ed_detail :: detail_enum
  ed_source :: execution_details_source
  ed_status :: execution_details_status
  ed_isTest :: bool
  ed_isRetry :: bool
  ed_raw :: json

record queue_next_job_command =
  qn_parentId :: string
  qn_environmentId :: string
  qn_organizationId :: string
  qn_userId :: string

datatype collaborator_call =
    SetJobAsFailed set_job_as_failed_command
  | CreateExecutionDetails create_execution_details_command
  | QueueNextJob queue_next_job_command

definition DEFAULT_ATTEMPTS :: nat where
  "DEFAULT_ATTEMPTS = 3"

definition setJobAsFailedCommand :: "queue_job \<Rightarrow> job_error \<Rightarrow> set_job_as_failed_command" where
  "setJobAsFailedCommand job err =
     \<lparr>sf_environmentId = jd_environmentId (job_data job),
      sf_error = err,
      sf_jobId = jd_id (job_data job),
      sf_organizationId = jd_organizationId (job_data job)\<rparr>"

text \<open>
  \<^verbatim>\<open>JSON.stringify({ message: JSON.parse(error.message).message })\<close>
  \<open>JSON.parse\<close> throws a \<open>SyntaxError\<close> on a text that is not JSON; reading \<open>.message\<close>
  of \<open>null\<close> throws a \<open>TypeError\<close>; on an object it is the property, if there is one;
  on any other value it is \<open>undefined\<close>, and \<open>JSON.stringify\<close> leaves an undefined
  property out. The result is kept as the JSON value that the string denotes.
\<close>

fun raw_message :: "job_error \<Rightarrow> thrown + json" where
  "raw_message (JobError (NotJson text)) = Inl SyntaxError"
| "raw_message (JobError (JsonText JNull)) = Inl TypeError"
| "raw_message (JobError (JsonText (JObject props))) =
     (case map_of props ''message'' of
        None \<Rightarrow> Inr (JObject [])
      | Some m \<Rightarrow> Inr (JObject [(''message'', m)]))"
| "raw_message (JobError (JsonText other)) = Inr (JObject [])"

text \<open>\<open>!job?.data?.step?.shouldStopOnFail\<close>: a missing step and a missing flag count as
  not set.\<close>

definition stopOnFail :: "queue_job \<Rightarrow> bool" where
  "stopOnFail job =
     (case jd_step (job_data job) of
        None \<Rightarrow> False
      | Some st \<Rightarrow> (case shouldStopOnFail st of None \<Rightarrow> False | Some flag \<Rightarrow> flag))"

definition handleLastFailedWebhookFilter ::
  "queue_job \<Rightarrow> job_error \<Rightarrow> collaborator_call list \<Rightarrow> (thrown + unit) \<times> collaborator_call list" where
  "handleLastFailedWebhookFilter job err w =
     (let w1 = w @ [SetJobAsFailed (setJobAsFailedCommand job err)] in
      case raw_message err of
        Inl exn \<Rightarrow> (Inl exn, w1)
      | Inr raw \<Rightarrow>
          (let w2 = w1 @ [CreateExecutionDetails
                            \<lparr>ed_detailsFromJob = job_data job,
                             ed_detail = WEBHOOK_FILTER_FAILED_LAST_RETRY,
                             ed_source = WEBHOOK,
                             ed_status = PENDING,
                             ed_isTest = False,
                             ed_isRetry = True,
                             ed_raw = raw\<rparr>]
           in if \<not> stopOnFail job then
                (Inr (), w2 @ [QueueNextJob
                                 \<lparr>qn_parentId = jd_id (job_data job),
                                  qn_environmentId = jd_environmentId (job_data job),
                                  qn_organizationId = jd_organizationId (job_data job),
                                  qn_userId = jd_userId (job_data job)\<rparr>])
              else (Inr (), w2)))"

definition jobHasFailed ::
  "bool \<Rightarrow> queue_job \<Rightarrow> job_error \<Rightarrow> collaborator_call list \<Rightarrow> (thrown + unit) \<times> collaborator_call list" where
  "jobHasFailed hasToBackoff job err w =
     (let w1 = (if \<not> hasToBackoff then w @ [SetJobAsFailed (setJobAsFailedCommand job err)] else w);
          lastWebhookFilterRetry = (attemptsMade job = DEFAULT_ATTEMPTS \<and> hasToBackoff)
      in if lastWebhookFilterRetry then handleLastFailedWebhookFilter job err w1
         else (Inr (), w1))"

section \<open>Job builder (CreateNotificationJobs)\<close>

text \<open>
  \<open>StepTypeEnum\<close>, the entities and the digest filter use case are not part of the
  sources at hand. Of the step types the code names \<open>DIGEST\<close> and \<open>TRIGGER\<close>; the
  others are kept by name. A step has the fields the use case reads.
\<close>

datatype step_type = TRIGGER | DIGEST | OtherStepType string

record message_template =
  mt_id :: string
  mt_type :: step_type

record step_metadata =
  md_type :: "string option"

record notification_step =
  ns_id :: string
  ns_active :: "bool option"
  ns_template :: "message_template option"
  ns_metadata :: "step_metadata option"

record notification =
  n_id :: string
  n_templateId :: string

record create_notification_jobs_command =
  c_identifier :: string
  c_payload :: string
  c_overrides :: string
  c_transactionId :: string
  c_environmentId :: string
  c_organizationId :: string
  c_userId :: string
  c_subscriber_id :: string
  c_subscriber_subscriberId :: string
  c_template_id :: string
  c_template_steps :: "notification_step list"
  c_templateProviderIds :: "string \<Rightarrow> string option"
  c_actor_id :: "string option"

record digest_filter_steps_command =
  df_subscriberId :: string
  df_payload :: string
  df_steps :: "notification_step list"
  df_environmentId :: string
  df_organizationId :: string
  df_userId :: string
  df_templateId :: string
  df_notificationId :: string
  df_transactionId :: string
  df_type :: string

datatype job_status = JOB_PENDING | JOB_RUNNING | JOB_COMPLETED | JOB_FAILED

record notification_job =
  j_identifier :: string
  j_payload :: string
  j_overrides :: string
  j_step :: notification_step
  j_transactionId :: string
  j_notificationId :: string
  j_environmentId :: string
  j_organizationId :: string
  j_userId :: string
  j_subscriberId :: string
  j_subscriber_id :: string
  j_status :: job_status
  j_templateId :: string
  j_digest :: "step_metadata option"
  j_type :: step_type
  j_providerId :: "string option"
  j_actorId :: "string option"

text \<open>\<^verbatim>\<open>steps.filter((step) => step.active === true)\<close>\<close>

definition filterActiveSteps :: "notification_step list \<Rightarrow> notification_step list" where
  "filterActiveSteps steps = filter (\<lambda>step. ns_active step = Some True) steps"

text \<open>\<open>step.template?.type === StepTypeEnum.DIGEST\<close>\<close>

definition isDigestStep :: "notification_step \<Rightarrow> bool" where
  "isDigestStep step = (case ns_template step of None \<Rightarrow> False | Some t \<Rightarrow> mt_type t = DIGEST)"

text \<open>\<open>digestStep.metadata?.type\<close>, with its truthiness: a missing metadata, a missing
  type and an empty type are falsy.\<close>

definition metadataType :: "notification_step \<Rightarrow> string option" where
  "metadataType step =
     (case ns_metadata step of
        None \<Rightarrow> None
      | Some md \<Rightarrow> (case md_type md of None \<Rightarrow> None | Some ty \<Rightarrow> if ty = [] then None else Some ty))"

text \<open>
  \<open>filterDigestSteps\<close>: the first digest step among the given steps decides. The
  digest filter is the collaborator \<open>digestFilterSteps\<close>; it is given all the steps of
  the template (\<open>command.template.steps\<close>), not the filtered ones.
\<close>

definition filterDigestSteps ::
  "(digest_filter_steps_command \<Rightarrow> notification_step list) \<Rightarrow> create_notification_jobs_command \<Rightarrow>
   notification \<Rightarrow> notification_step list \<Rightarrow> notification_step list" where
  "filterDigestSteps digestFilterSteps command notif steps =
     (case find isDigestStep steps of
        None \<Rightarrow> steps
      | Some digestStep \<Rightarrow>
          (case metadataType digestStep of
             None \<Rightarrow> steps
           | Some ty \<Rightarrow>
               digestFilterSteps
                 \<lparr>df_subscriberId = c_subscriber_id command,
                  df_payload = c_payload command,
                  df_steps = c_template_steps command,
                  df_environmentId = c_environmentId command,
                  df_organizationId = c_organizationId command,
                  df_userId = c_userId command,
                  df_templateId = c_template_id command,
                  df_notificationId = n_id notif,
                  df_transactionId = c_transactionId command,
                  df_type = ty\<rparr>))"

definition createSteps ::
  "(digest_filter_steps_command \<Rightarrow> notification_step list) \<Rightarrow> create_notification_jobs_command \<Rightarrow>
   notification \<Rightarrow> notification_step list" where
  "createSteps digestFilterSteps command notif =
     (let activeSteps = filterActiveSteps (c_template_steps command)
      in filterDigestSteps digestFilterSteps command notif activeSteps)"

text \<open>The job built for one step with its template. \<open>STEP_TYPE_TO_CHANNEL_TYPE\<close> is
  not part of the sources at hand: it is the parameter \<open>channelOf\<close>.\<close>

definition jobOfStep ::
  "(step_type \<Rightarrow> string option) \<Rightarrow> create_notification_jobs_command \<Rightarrow> notification \<Rightarrow>
   notification_step \<Rightarrow> message_template \<Rightarrow> notification_job" where
  "jobOfStep channelOf command notif step template =
     \<lparr>j_identifier = c_identifier command,
      j_payload = c_payload command,
      j_overrides = c_overrides command,
      j_step = step,
      j_transactionId = c_transactionId command,
      j_notificationId = n_id notif,
      j_environmentId = c_environmentId command,
      j_organizationId = c_organizationId command,
      j_userId = c_userId command,
      j_subscriberId = c_subscriber_subscriberId command,
      j_subscriber_id = c_subscriber_id command,
      j_status = JOB_PENDING,
      j_templateId = n_templateId notif,
      j_digest = ns_metadata step,
      j_type = mt_type template,
      j_providerId = (case channelOf (mt_type template) of
                        None \<Rightarrow> None
                      | Some channel \<Rightarrow> c_templateProviderIds command channel),
      j_actorId = c_actor_id command\<rparr>"

text \<open>The loop over the steps: it throws at the first step without a template.\<close>

fun buildJobs ::
  "(step_type \<Rightarrow> string option) \<Rightarrow> create_notification_jobs_command \<Rightarrow> notification \<Rightarrow>
   notification_step list \<Rightarrow> thrown + notification_job list" where
  "buildJobs channelOf command notif [] = Inr []"
| "buildJobs channelOf command notif (step # steps) =
     (case ns_template step of
        None \<Rightarrow> Inl (ApiException ''Step template was not found'')
      | Some template \<Rightarrow>
          (case buildJobs channelOf command notif steps of
             Inl exn \<Rightarrow> Inl exn
           | Inr jobs \<Rightarrow> Inr (jobOfStep channelOf command notif step template # jobs)))"

text \<open>\<open>execute\<close>. \<open>created\<close> is what \<open>notificationRepository.create\<close> resolves to.\<close>

definition execute ::
  "(digest_filter_steps_command \<Rightarrow> notification_step list) \<Rightarrow> (step_type \<Rightarrow> string option) \<Rightarrow>
   notification option \<Rightarrow> create_notification_jobs_command \<Rightarrow> thrown + notification_job list" where
  "execute digestFilterSteps channelOf created command =
     (case created of
        None \<Rightarrow> Inl (ApiException ''Notification could not be created'')
      | Some notif \<Rightarrow> buildJobs channelOf command notif (createSteps digestFilterSteps command notif))"

section \<open>Example data\<close>

text \<open>A job of the queue with the given number of attempts and stop-on-fail flag.\<close>

definition example_job :: "nat \<Rightarrow> bool option \<Rightarrow> queue_job" where
  "example_job attempts stop =
     \<lparr>job_data = \<lparr>jd_id = ''job-1'', jd_environmentId = ''env-1'', jd_organizationId = ''org-1'',
                   jd_userId = ''user-1'', jd_step = Some \<lparr>shouldStopOnFail = stop\<rparr>\<rparr>,
      attemptsMade = attempts\<rparr>"

text \<open>The template of the example in the specification of the job builder: an active step
  \<open>A\<close>, an inactive step \<open>B\<close>, an active digest step \<open>C\<close>; and a digest filter that
  returns the single step \<open>C'\<close>.\<close>

definition stepA :: notification_step where
  "stepA = \<lparr>ns_id = ''A'', ns_active = Some True,
            ns_template = Some \<lparr>mt_id = ''template-A'', mt_type = OtherStepType ''in_app''\<rparr>,
            ns_metadata = None\<rparr>"

definition stepB :: notification_step where
  "stepB = \<lparr>ns_id = ''B'', ns_active = Some False,
            ns_template = Some \<lparr>mt_id = ''template-B'', mt_type = OtherStepType ''email''\<rparr>,
            ns_metadata = None\<rparr>"

definition stepC :: notification_step where
  "stepC = \<lparr>ns_id = ''C'', ns_active = Some True,
            ns_template = Some \<lparr>mt_id = ''template-C'', mt_type = DIGEST\<rparr>,
            ns_metadata = Some \<lparr>md_type = Some ''regular''\<rparr>\<rparr>"

definition stepC' :: notification_step where
  "stepC' = \<lparr>ns_id = ''C-merged'', ns_active = Some True,
            ns_template = Some \<lparr>mt_id = ''template-C'', mt_type = DIGEST\<rparr>,
            ns_metadata = Some \<lparr>md_type = Some ''regular''\<rparr>\<rparr>"

definition example_command :: create_notification_jobs_command where
  "example_command =
     \<lparr>c_identifier = ''welcome'', c_payload = ''{}'', c_overrides = ''{}'', c_transactionId = ''tx-1'',
      c_environmentId = ''env-1'', c_organizationId = ''org-1'', c_userId = ''user-1'',
      c_subscriber_id = ''sub-1'', c_subscriber_subscriberId = ''alice'',
      c_template_id = ''workflow-1'', c_template_steps = [stepA, stepB, stepC],
      c_templateProviderIds = Map.empty, c_actor_id = None\<rparr>"

definition example_notification :: notification where
  "example_notification = \<lparr>n_id = ''notification-1'', n_templateId = ''workflow-1''\<rparr>"

definition example_digest_filter :: "digest_filter_steps_command \<Rightarrow> notification_step list" where
  "example_digest_filter c = [stepC']"

definition no_channel :: "step_type \<Rightarrow> string option" where
  "no_channel t = None"

section \<open>Properties of the lock service\<close>

lemma trace_lockRelease:
  "trace (lockRelease resource lck s) = trace s @ release_events resource lck s"
  by (cases "unlock lck") (simp_all add: lockRelease_def release_events_def emit_def Let_def)

lemma lockCounter_lockRelease:
  "lockCounter (lockRelease resource lck s) = decreaseLockCounter resource (lockCounter s)"
  by (cases "unlock lck") (simp_all add: lockRelease_def emit_def Let_def)

lemma count_unlock_release_events:
  "length (filter (\<lambda>e. e = BackendUnlock resource) (release_events resource lck s)) = 1"
  by (cases "unlock lck") (simp_all add: release_events_def)

lemma applyLock_acquired:
  assumes "distributedLock s"
  shows "applyLock (Inr lck) resource ttl handler s =
           (fst (handler (locked_state resource ttl s)),
            emit (Logged Debug (LockReleasedFor resource))
              (lockRelease resource lck (snd (handler (locked_state resource ttl s)))))"
  using assms
  by (simp add: applyLock_def isDistributedLockEnabled_def lock_def createLockRelease_def
      locked_state_def Let_def emit_def split: prod.splits)

text \<open>
  C2. When the lock manager is enabled and the acquire succeeds, \<open>applyLock\<close> settles
  with exactly the outcome of the body (its value, or the exception it threw), whatever
  the unlock does; after the body it runs the release once: the trace grows by the
  events of one release (one \<open>unlock\<close> call on the backend, and the logged error when
  that call fails) followed by the final debug line, and nothing else, so that the
  number of \<open>unlock\<close> calls for the resource is one more than when the body settled.
  The counter of the resource is decremented.
\<close>

theorem applyLock_releases_once:
  assumes "distributedLock s"
    and "handler (locked_state resource ttl s) = (outcome, s')"
    and "applyLock (Inr lck) resource ttl handler s = (result, t)"
  shows "result = outcome
    \<and> trace t = trace s' @ release_events resource lck s' @ [Logged Debug (LockReleasedFor resource)]
    \<and> length (filter (\<lambda>e. e = BackendUnlock resource) (trace t))
        = length (filter (\<lambda>e. e = BackendUnlock resource) (trace s')) + 1
    \<and> (\<forall>err. unlock lck = Some err \<longrightarrow>
          Logged LogError (ReleasingThrew resource (message err)) \<in> set (trace t))
    \<and> lockCounter t = decreaseLockCounter resource (lockCounter s')"
proof -
  from assms have t: "t = emit (Logged Debug (LockReleasedFor resource)) (lockRelease resource lck s')"
    and r: "result = outcome"
    by (simp_all add: applyLock_acquired)
  have tr: "trace t = trace s' @ release_events resource lck s' @ [Logged Debug (LockReleasedFor resource)]"
    by (simp add: t emit_def trace_lockRelease)
  have logged: "\<forall>err. unlock lck = Some err \<longrightarrow>
          Logged LogError (ReleasingThrew resource (message err)) \<in> set (trace t)"
    by (simp add: tr release_events_def)
  have cnt: "lockCounter t = decreaseLockCounter resource (lockCounter s')"
    by (simp add: t emit_def lockCounter_lockRelease)
  have once: "length (filter (\<lambda>e. e = BackendUnlock resource) (trace t))
        = length (filter (\<lambda>e. e = BackendUnlock resource) (trace s')) + 1"
    by (simp add: tr count_unlock_release_events)
  show ?thesis
    using r tr logged cnt once by blast
qed

theorem applyLock_releases_once_witness:
  "fst (applyLock (Inr (AcquiredLock (Some (JsError ''connection lost'')))) ''digest:42'' 5000
          (\<lambda>s. (Inl (JsError ''boom'') :: js_error + unit, s))
          \<lparr>distributedLock = True, lockCounter = [], shuttingDown = False, trace = []\<rparr>)
     = Inl (JsError ''boom'')
   \<and> lockCounter (snd (applyLock (Inr (AcquiredLock (Some (JsError ''connection lost'')))) ''digest:42'' 5000
          (\<lambda>s. (Inl (JsError ''boom'') :: js_error + unit, s))
          \<lparr>distributedLock = True, lockCounter = [], shuttingDown = False, trace = []\<rparr>))
     = [(''digest:42'', Num 0)]
   \<and> Logged LogError (ReleasingThrew ''digest:42'' ''connection lost'')
       \<in> set (trace (snd (applyLock (Inr (AcquiredLock (Some (JsError ''connection lost'')))) ''digest:42'' 5000
          (\<lambda>s. (Inl (JsError ''boom'') :: js_error + unit, s))
          \<lparr>distributedLock = True, lockCounter = [], shuttingDown = False, trace = []\<rparr>)))"
proof -
  define s0 where "s0 = \<lparr>distributedLock = True, lockCounter = [], shuttingDown = False, trace = []\<rparr>"
  define h where "h = (\<lambda>s :: lock_service. (Inl (JsError ''boom'') :: js_error + unit, s))"
  define lck where "lck = AcquiredLock (Some (JsError ''connection lost''))"
  have h1: "distributedLock s0" by (simp add: s0_def)
  have h2: "h (locked_state ''digest:42'' 5000 s0) = (Inl (JsError ''boom''), locked_state ''digest:42'' 5000 s0)"
    by (simp add: h_def)
  have h3: "applyLock (Inr lck) ''digest:42'' 5000 h s0
              = (fst (applyLock (Inr lck) ''digest:42'' 5000 h s0), snd (applyLock (Inr lck) ''digest:42'' 5000 h s0))"
    by simp
  have c: "lockCounter (locked_state ''digest:42'' 5000 s0) = [(''digest:42'', Num 1)]"
    by (simp add: locked_state_def emit_def s0_def increaseLockCounter_def lockCounter_get_def
        lockCounter_set_def object_prototype_names_def)
  have u: "unlock lck = Some (JsError ''connection lost'')" by (simp add: lck_def)
  from applyLock_releases_once [OF h1 h2 h3] u
  have "fst (applyLock (Inr lck) ''digest:42'' 5000 h s0) = Inl (JsError ''boom'')
      \<and> lockCounter (snd (applyLock (Inr lck) ''digest:42'' 5000 h s0)) = [(''digest:42'', Num 0)]
      \<and> Logged LogError (ReleasingThrew ''digest:42'' ''connection lost'')
          \<in> set (trace (snd (applyLock (Inr lck) ''digest:42'' 5000 h s0)))"
    by (auto simp add: c decreaseLockCounter_def lockCounter_get_def lockCounter_set_def
        object_prototype_names_def)
  then show ?thesis by (simp add: s0_def h_def lck_def)
qed

lemma not_proto:
  "r \<notin> set object_prototype_names \<Longrightarrow> r \<noteq> ''__proto__''"
  by (auto simp: object_prototype_names_def)

lemma get_own_name:
  "r \<notin> set object_prototype_names \<Longrightarrow>
   lockCounter_get c r = (case map_of c r of None \<Rightarrow> Absent | Some v \<Rightarrow> Own v)"
  by (simp add: lockCounter_get_def split: option.splits)

lemma map_of_increase_None:
  "r \<notin> set object_prototype_names \<Longrightarrow> map_of c r = None \<Longrightarrow>
   map_of (increaseLockCounter r c) = (map_of c)(r \<mapsto> Num 1)"
  by (simp add: increaseLockCounter_def get_own_name lockCounter_set_def not_proto update_conv')

lemma map_of_increase_Some:
  "r \<notin> set object_prototype_names \<Longrightarrow> map_of c r = Some (Num (int k)) \<Longrightarrow>
   map_of (increaseLockCounter r c) = (map_of c)(r \<mapsto> Num (int (Suc k)))"
  by (simp add: increaseLockCounter_def get_own_name lockCounter_set_def not_proto update_conv'
      add.commute)

lemma map_of_decrease_Some:
  "r \<notin> set object_prototype_names \<Longrightarrow> map_of c r = Some (Num (int (Suc k))) \<Longrightarrow>
   map_of (decreaseLockCounter r c) = (map_of c)(r \<mapsto> Num (int k))"
  by (simp add: decreaseLockCounter_def get_own_name lockCounter_set_def not_proto update_conv')

lemma distinct_increase:
  "distinct (map fst c) \<Longrightarrow> distinct (map fst (increaseLockCounter r c))"
  by (simp add: increaseLockCounter_def lockCounter_set_def distinct_update)

lemma distinct_decrease:
  "distinct (map fst c) \<Longrightarrow> distinct (map fst (decreaseLockCounter r c))"
  by (simp add: decreaseLockCounter_def lockCounter_set_def distinct_update)

lemma list_all_update:
  "list_all P xs \<Longrightarrow> P y \<Longrightarrow> list_all P (xs[i := y])"
  using set_update_subset_insert [of xs i y] by (auto simp: list_all_iff)

lemma filter_length_update:
  assumes "i < length xs"
  shows "length (filter P (xs[i := y])) + (if P (xs ! i) then 1 else 0)
       = length (filter P xs) + (if P y then 1 else 0)"
proof -
  have a: "xs[i := y] = take i xs @ y # drop (Suc i) xs"
    using assms by (rule upd_conv_take_nth_drop)
  have b: "xs = take i xs @ (xs ! i) # drop (Suc i) xs"
    using assms by (rule id_take_nth_drop)
  have "length (filter P xs) = length (filter P (take i xs @ (xs ! i) # drop (Suc i) xs))"
    using b by simp
  then show ?thesis
    by (simp add: a)
qed

lemma holding_update:
  assumes "i < length ts" and "t_resource t' = t_resource (ts ! i)"
  shows "holding (ts[i := t']) r + (if t_resource (ts ! i) = r \<and> holds (t_pc (ts ! i)) then 1 else 0)
       = holding ts r + (if t_resource (ts ! i) = r \<and> holds (t_pc t') then 1 else 0)"
  using filter_length_update [OF assms(1), of "\<lambda>t. t_resource t = r \<and> holds (t_pc t)" t'] assms(2)
  by (simp add: holding_def)

lemma cm_safe:
  assumes "counters_match ts c" "i < length ts" "t_resource t' = t_resource (ts ! i)"
  shows "t_resource t' \<notin> set object_prototype_names"
    and "list_all (\<lambda>t. t_resource t \<notin> set object_prototype_names) (ts[i := t'])"
proof -
  have a: "list_all (\<lambda>t. t_resource t \<notin> set object_prototype_names) ts"
    using assms(1) unfolding counters_match_def by blast
  then have "t_resource (ts ! i) \<notin> set object_prototype_names"
    using assms(2) by (simp add: list_all_length)
  then show b: "t_resource t' \<notin> set object_prototype_names" using assms(3) by simp
  show "list_all (\<lambda>t. t_resource t \<notin> set object_prototype_names) (ts[i := t'])"
    using a b by (rule list_all_update)
qed

lemma cm_same:
  assumes "counters_match ts c" "i < length ts" "t_resource t' = t_resource (ts ! i)"
    "holds (t_pc t') = holds (t_pc (ts ! i))"
  shows "counters_match (ts[i := t']) c"
proof -
  have "\<And>r. holding (ts[i := t']) r = holding ts r"
    using holding_update [OF assms(2,3)] assms(4) by simp
  then show ?thesis
    using assms(1) cm_safe(2) [OF assms(1,2,3)] unfolding counters_match_def
    by (simp del: map_of_eq_Some_iff)
qed

lemma cm_inc:
  assumes "counters_match ts c" "i < length ts" "t_resource t' = t_resource (ts ! i)"
    "\<not> holds (t_pc (ts ! i))" "holds (t_pc t')"
  shows "counters_match (ts[i := t']) (increaseLockCounter (t_resource t') c)"
proof -
  note safe = cm_safe [OF assms(1,2,3)]
  have h: "\<And>r. holding (ts[i := t']) r = holding ts r + (if t_resource t' = r then 1 else 0)"
    using holding_update [OF assms(2,3)] assms(3,4,5) by simp
  have m: "\<And>r. (map_of c r = None \<and> holding ts r = 0) \<or> map_of c r = Some (Num (int (holding ts r)))"
    using assms(1) unfolding counters_match_def by blast
  have "(map_of (increaseLockCounter (t_resource t') c) r = None \<and> holding (ts[i := t']) r = 0)
          \<or> map_of (increaseLockCounter (t_resource t') c) r = Some (Num (int (holding (ts[i := t']) r)))" for r
    using m [of r] m [of "t_resource t'"] h [of r]
    by (auto simp: map_of_increase_None [OF safe(1)] map_of_increase_Some [OF safe(1)])
  moreover have "distinct (map fst (increaseLockCounter (t_resource t') c))"
    using assms(1) by (simp add: counters_match_def distinct_increase)
  ultimately show ?thesis using safe(2) unfolding counters_match_def by blast
qed

lemma cm_dec:
  assumes "counters_match ts c" "i < length ts" "t_resource t' = t_resource (ts ! i)"
    "holds (t_pc (ts ! i))" "\<not> holds (t_pc t')"
  shows "counters_match (ts[i := t']) (decreaseLockCounter (t_resource t') c)"
proof -
  note safe = cm_safe [OF assms(1,2,3)]
  have h: "\<And>r. holding (ts[i := t']) r + (if t_resource t' = r then 1 else 0) = holding ts r"
    using holding_update [OF assms(2,3)] assms(3,4,5) by simp
  have m: "\<And>r. (map_of c r = None \<and> holding ts r = 0) \<or> map_of c r = Some (Num (int (holding ts r)))"
    using assms(1) unfolding counters_match_def by blast
  from h [of "t_resource t'"] obtain k where k: "holding ts (t_resource t') = Suc k"
    and k': "holding (ts[i := t']) (t_resource t') = k"
    by (cases "holding ts (t_resource t')") auto
  have mt: "map_of c (t_resource t') = Some (Num (int (Suc k)))"
    using m [of "t_resource t'"] k by simp
  have "(map_of (decreaseLockCounter (t_resource t') c) r = None \<and> holding (ts[i := t']) r = 0)
          \<or> map_of (decreaseLockCounter (t_resource t') c) r = Some (Num (int (holding (ts[i := t']) r)))" for r
    using m [of r] h [of r] k'
    by (auto simp: map_of_decrease_Some [OF safe(1) mt])
  moreover have "distinct (map fst (decreaseLockCounter (t_resource t') c))"
    using assms(1) by (simp add: counters_match_def distinct_decrease)
  ultimately show ?thesis using safe(2) unfolding counters_match_def by blast
qed

lemma step_Task:
  "i < length (tasks st) \<Longrightarrow>
   system_step (Task i) st =
     st\<lparr>service := snd (applyLock_resume (tasks st ! i) (service st)),
        tasks := (tasks st)[i := (tasks st ! i)\<lparr>t_pc := fst (applyLock_resume (tasks st ! i) (service st))\<rparr>]\<rparr>"
  by (simp add: Let_def case_prod_beta)

lemma step_Drain:
  "j < length (drains st) \<Longrightarrow>
   system_step (Drain j q) st =
     st\<lparr>service := snd (shutdown_resume (drains st ! j) q (service st)),
        drains := (drains st)[j := fst (shutdown_resume (drains st ! j) q (service st))]\<rparr>"
  by (simp add: Let_def case_prod_beta)

lemma resume_counter_inc:
  "\<not> holds (t_pc t) \<Longrightarrow> holds (fst (applyLock_resume t s)) \<Longrightarrow>
   lockCounter (snd (applyLock_resume t s)) = increaseLockCounter (t_resource t) (lockCounter s)"
  by (cases "t_pc t"; cases "t_acq t")
     (auto simp add: applyLock_resume_def isDistributedLockEnabled_def createLockRelease_def emit_def Let_def
        split: option.splits if_splits)

lemma resume_counter_dec:
  "holds (t_pc t) \<Longrightarrow> \<not> holds (fst (applyLock_resume t s)) \<Longrightarrow>
   lockCounter (snd (applyLock_resume t s)) = decreaseLockCounter (t_resource t) (lockCounter s)"
  by (cases "t_pc t"; cases "t_acq t")
     (auto simp add: applyLock_resume_def isDistributedLockEnabled_def createLockRelease_def emit_def Let_def
        split: option.splits if_splits)

lemma resume_counter_same:
  "holds (fst (applyLock_resume t s)) = holds (t_pc t) \<Longrightarrow>
   lockCounter (snd (applyLock_resume t s)) = lockCounter s"
  by (cases "t_pc t"; cases "t_acq t")
     (auto simp add: applyLock_resume_def isDistributedLockEnabled_def createLockRelease_def emit_def Let_def
        split: option.splits if_splits)

lemma counters_match_task:
  assumes inv: "counters_match (tasks st) (lockCounter (service st))"
  shows "counters_match (tasks (system_step (Task i) st)) (lockCounter (service (system_step (Task i) st)))"
proof (cases "i < length (tasks st)")
  case False
  then show ?thesis using inv by simp
next
  case True
  let ?t = "tasks st ! i"
  let ?p = "fst (applyLock_resume ?t (service st))"
  let ?t' = "?t\<lparr>t_pc := ?p\<rparr>"
  have r: "t_resource ?t' = t_resource (tasks st ! i)" by simp
  consider (inc) "\<not> holds (t_pc ?t)" "holds ?p" | (dec) "holds (t_pc ?t)" "\<not> holds ?p"
    | (same) "holds ?p = holds (t_pc ?t)" by blast
  then show ?thesis
  proof cases
    case inc
    then show ?thesis
      using cm_inc [OF inv True r] by (simp add: step_Task [OF True] resume_counter_inc del: system_step.simps)
  next
    case dec
    then show ?thesis
      using cm_dec [OF inv True r] by (simp add: step_Task [OF True] resume_counter_dec del: system_step.simps)
  next
    case same
    then show ?thesis
      using cm_same [OF inv True r] by (simp add: step_Task [OF True] resume_counter_same del: system_step.simps)
  qed
qed

lemma shutdown_counter: "lockCounter (snd (shutdown_resume p q s)) = lockCounter s"
  by (cases p; cases q)
     (simp_all add: shutdown_resume_def shutdown_loop_def shutdown_after_loop_def shutdown_finally_def
        emit_def Let_def)

lemma counters_match_step:
  assumes "counters_match (tasks st) (lockCounter (service st))"
  shows "counters_match (tasks (system_step a st)) (lockCounter (service (system_step a st)))"
proof (cases a)
  case (Task i)
  then show ?thesis using counters_match_task [OF assms] by simp
next
  case (Drain j q)
  then show ?thesis using assms
    by (cases "j < length (drains st)") (simp_all add: shutdown_counter case_prod_beta Let_def)
qed

lemma counters_match_run:
  "counters_match (tasks st) (lockCounter (service st)) \<Longrightarrow>
   counters_match (tasks (run acts st)) (lockCounter (service (run acts st)))"
  unfolding run_def
  by (induction acts arbitrary: st) (simp_all add: counters_match_step del: system_step.simps)

lemma holding_new: "holding (map new_task calls) r = 0"
  by (induction calls) (simp_all add: holding_def new_task_def)

lemma counters_match_initial:
  assumes "list_all (\<lambda>c. fst c \<notin> set object_prototype_names) calls"
  shows "counters_match (tasks (initial client calls n)) (lockCounter (service (initial client calls n)))"
proof -
  have "list_all (\<lambda>t. t_resource t \<notin> set object_prototype_names) (map new_task calls)"
    using assms by (induction calls) (simp_all add: new_task_def)
  then show ?thesis by (simp add: counters_match_def initial_def holding_new)
qed

lemma counters_match_reachable:
  assumes "list_all (\<lambda>c. fst c \<notin> set object_prototype_names) calls"
  shows "counters_match (tasks (run acts (initial client calls n)))
           (lockCounter (service (run acts (initial client calls n))))"
  by (rule counters_match_run [OF counters_match_initial [OF assms]])

lemma holding_none:
  "list_all (\<lambda>t. \<not> holds (t_pc t)) ts \<Longrightarrow> holding ts r = 0"
  by (induction ts) (simp_all add: holding_def)

lemma holds_counted:
  assumes "t \<in> set ts" "holds (t_pc t)"
  shows "0 < holding ts (t_resource t)"
proof -
  have "t \<in> set (filter (\<lambda>u. t_resource u = t_resource t \<and> holds (t_pc u)) ts)"
    using assms by simp
  then have "filter (\<lambda>u. t_resource u = t_resource t \<and> holds (t_pc u)) ts \<noteq> []"
    by (metis empty_iff empty_set)
  then show ?thesis by (simp add: holding_def)
qed

lemma entry_counts:
  assumes "counters_match ts c" "(r, v) \<in> set c"
  shows "v = Num (int (holding ts r))"
proof -
  have d: "distinct (map fst c)" using assms(1) unfolding counters_match_def by blast
  have "map_of c r = Some v" using d assms(2) by simp
  moreover have "(map_of c r = None \<and> holding ts r = 0) \<or> map_of c r = Some (Num (int (holding ts r)))"
    using assms(1) unfolding counters_match_def by blast
  ultimately show ?thesis by (auto simp del: map_of_eq_Some_iff)
qed

lemma released_iff_zero:
  assumes "counters_match ts (lockCounter s)"
  shows "areAllLocksReleased s \<longleftrightarrow> list_all (\<lambda>(k, v). v = Num 0) (lockCounter s)"
proof -
  have "\<not> truthy (Own v) \<longleftrightarrow> v = Num 0" if "(r, v) \<in> set (lockCounter s)" for r v
    using entry_counts [OF assms that] by simp
  then show ?thesis
    unfolding areAllLocksReleased_def list_all_iff by fastforce
qed

lemma zero_none_holds:
  assumes cm: "counters_match ts c" and z: "list_all (\<lambda>(k, v). v = Num 0) c"
  shows "list_all (\<lambda>t. \<not> holds (t_pc t)) ts"
proof -
  have "\<not> holds (t_pc t)" if t: "t \<in> set ts" for t
  proof
    assume h: "holds (t_pc t)"
    have pos: "0 < holding ts (t_resource t)" using t h by (rule holds_counted)
    have "(map_of c (t_resource t) = None \<and> holding ts (t_resource t) = 0)
        \<or> map_of c (t_resource t) = Some (Num (int (holding ts (t_resource t))))"
      using cm unfolding counters_match_def by blast
    with pos have "map_of c (t_resource t) = Some (Num (int (holding ts (t_resource t))))"
      by simp
    then have "(t_resource t, Num (int (holding ts (t_resource t)))) \<in> set c"
      by (rule map_of_SomeD)
    with z have "Num (int (holding ts (t_resource t))) = Num 0"
      unfolding list_all_iff by fastforce
    with pos show False by simp
  qed
  then show ?thesis by (simp add: list_all_iff)
qed

text \<open>
  C3 does not hold of the code. \<open>lockCounter\<close> is a plain object, so for a resource
  named like a member of \<open>Object.prototype\<close> the test in \<open>increaseLockCounter\<close> finds the
  inherited member, which is truthy, and \<open>++\<close> stores \<open>NaN\<close>. For the resource
  \<open>constructor\<close>: while the handler runs under the lock the counter is \<open>NaN\<close>, not 1;
  after the release it is still \<open>NaN\<close>, not zero; and \<open>areAllLocksReleased\<close> answers
  true while the lock is held.
\<close>

theorem lock_counter_prototype_name:
  "lockCounter (locked_state ''constructor'' 1000
      \<lparr>distributedLock = True, lockCounter = [], shuttingDown = False, trace = []\<rparr>)
     = [(''constructor'', NaN)]
   \<and> lockCounter (snd (applyLock (Inr (AcquiredLock None)) ''constructor'' 1000
        (\<lambda>s. (Inr () :: js_error + unit, s))
        \<lparr>distributedLock = True, lockCounter = [], shuttingDown = False, trace = []\<rparr>))
     = [(''constructor'', NaN)]
   \<and> areAllLocksReleased (locked_state ''constructor'' 1000
      \<lparr>distributedLock = True, lockCounter = [], shuttingDown = False, trace = []\<rparr>)"
  by (simp add: applyLock_acquired lockCounter_lockRelease locked_state_def emit_def
      increaseLockCounter_def decreaseLockCounter_def lockCounter_get_def lockCounter_set_def
      object_prototype_names_def areAllLocksReleased_def)

text \<open>
  Run without interference, \<open>applyLock\<close> is its resumptions in order, with the
  handler between \<open>Acquired\<close> and \<open>InHandler\<close>.
\<close>

lemma applyLock_unprotected:
  assumes "\<not> distributedLock s"
  shows "applyLock acq resource ttl handler s = handler (segment resource ttl acq NotCalled s)"
    and "next_pc resource ttl acq NotCalled s = Unprotected"
    and "next_pc resource ttl acq Unprotected s' = Settled"
    and "segment resource ttl acq Unprotected s' = s'"
  using assms
  by (simp_all add: applyLock_def segment_def next_pc_def applyLock_resume_def isDistributedLockEnabled_def)

lemma applyLock_rejected:
  assumes "distributedLock s"
  shows "applyLock (Inl err) resource ttl handler s =
           (Inl err, segment resource ttl (Inl err) Acquiring (segment resource ttl (Inl err) NotCalled s))"
    and "next_pc resource ttl (Inl err) NotCalled s = Acquiring"
    and "next_pc resource ttl (Inl err) Acquiring s' = Settled"
  using assms
  by (simp_all add: applyLock_def segment_def next_pc_def applyLock_resume_def isDistributedLockEnabled_def
      lock_def Let_def)

lemma applyLock_segments:
  assumes "distributedLock s"
  shows "applyLock (Inr lck) resource ttl handler s =
           (let sg = segment resource ttl (Inr lck);
                (outcome, s') = handler (sg (Acquired lck) (sg Acquiring (sg NotCalled s)))
            in (outcome, sg Released (sg (Unlocking lck) (sg (InHandler lck) s'))))"
    and "next_pc resource ttl (Inr lck) NotCalled s = Acquiring"
    and "next_pc resource ttl (Inr lck) Acquiring s1 = Acquired lck"
    and "next_pc resource ttl (Inr lck) (Acquired lck) s2 = InHandler lck"
    and "next_pc resource ttl (Inr lck) (InHandler lck) s3 = Unlocking lck"
    and "next_pc resource ttl (Inr lck) (Unlocking lck) s4 = Released"
    and "next_pc resource ttl (Inr lck) Released s5 = Settled"
  using assms
  by (simp_all add: applyLock_def segment_def next_pc_def applyLock_resume_def isDistributedLockEnabled_def
      lock_def createLockRelease_def lockRelease_def emit_def Let_def split: prod.splits option.splits)

lemma resume_dl: "distributedLock (snd (applyLock_resume t s)) = distributedLock s"
  by (cases "t_pc t"; cases "t_acq t")
     (auto simp add: applyLock_resume_def isDistributedLockEnabled_def createLockRelease_def emit_def
        Let_def split: option.splits if_splits)

lemma resume_sd: "shuttingDown (snd (applyLock_resume t s)) = shuttingDown s"
  by (cases "t_pc t"; cases "t_acq t")
     (auto simp add: applyLock_resume_def isDistributedLockEnabled_def createLockRelease_def emit_def
        Let_def split: option.splits if_splits)

lemma resume_quits: "quits (snd (applyLock_resume t s)) = quits s"
  by (cases "t_pc t"; cases "t_acq t")
     (auto simp add: applyLock_resume_def isDistributedLockEnabled_def createLockRelease_def emit_def
        quits_def Let_def split: option.splits if_splits)

lemmas resume_flags = resume_dl resume_sd resume_quits

lemma drain_inv_task:
  assumes "drain_inv st"
  shows "drain_inv (system_step (Task i) st)"
  using assms
  by (cases "i < length (tasks st)")
     (simp_all add: drain_inv_def resume_flags case_prod_beta Let_def)

lemma quitting_count_update:
  assumes "j < length ds"
  shows "length (filter (\<lambda>p. p = Quitting) (ds[j := p'])) + (if ds ! j = Quitting then 1 else 0)
       = length (filter (\<lambda>p. p = Quitting) ds) + (if p' = Quitting then 1 else 0)"
  using filter_length_update [OF assms, of "\<lambda>p. p = Quitting" p'] by simp

lemma returned_update:
  assumes "ShutdownReturned \<in> set (ds[j := p'])"
  shows "p' = ShutdownReturned \<or> ShutdownReturned \<in> set ds"
proof -
  have "set (ds[j := p']) \<subseteq> insert p' (set ds)" by (rule set_update_subset_insert)
  with assms show ?thesis by blast
qed

lemma quitting_positive:
  assumes "j < length ds" "ds ! j = Quitting"
  shows "0 < length (filter (\<lambda>p. p = Quitting) ds)"
proof -
  have "Quitting \<in> set ds" using assms nth_mem by fastforce
  then have "filter (\<lambda>p. p = Quitting) ds \<noteq> []" by (simp add: filter_empty_conv)
  then show ?thesis by simp
qed

lemma drain_inv_keep:
  assumes inv: "drain_inv st" and j: "j < length (drains st)"
    and p: "drains st ! j \<noteq> Quitting" "p' \<noteq> Quitting"
    and f: "distributedLock s' = distributedLock (service st)"
           "shuttingDown s' = shuttingDown (service st)" "quits s' = quits (service st)"
    and r: "p' = ShutdownReturned \<Longrightarrow> \<not> (distributedLock s' \<and> \<not> shuttingDown s')"
  shows "drain_inv (st\<lparr>service := s', drains := (drains st)[j := p']\<rparr>)"
proof -
  have c: "length (filter (\<lambda>p. p = Quitting) ((drains st)[j := p'])) = length (filter (\<lambda>p. p = Quitting) (drains st))"
    using quitting_count_update [OF j, of p'] p by simp
  have "ShutdownReturned \<in> set ((drains st)[j := p']) \<Longrightarrow> \<not> (distributedLock s' \<and> \<not> shuttingDown s')"
    using returned_update [of "drains st" j p'] r inv f unfolding drain_inv_def by blast
  then show ?thesis
    using inv c f unfolding drain_inv_def by simp
qed

lemma drain_inv_start_quit:
  assumes inv: "drain_inv st" and j: "j < length (drains st)"
    and p: "drains st ! j \<noteq> Quitting"
    and old: "distributedLock (service st)" "\<not> shuttingDown (service st)"
    and new: "distributedLock s'" "shuttingDown s'" "quits s' = quits (service st) + 1"
  shows "drain_inv (st\<lparr>service := s', drains := (drains st)[j := Quitting]\<rparr>)"
proof -
  have c: "length (filter (\<lambda>p. p = Quitting) ((drains st)[j := Quitting])) = length (filter (\<lambda>p. p = Quitting) (drains st)) + 1"
    using quitting_count_update [OF j, of Quitting] p by simp
  show ?thesis
    using inv c old new unfolding drain_inv_def by simp
qed

lemma drain_inv_end_quit:
  assumes inv: "drain_inv st" and j: "j < length (drains st)"
    and p: "drains st ! j = Quitting"
    and new: "\<not> distributedLock s'" "\<not> shuttingDown s'" "quits s' = quits (service st)"
  shows "drain_inv (st\<lparr>service := s', drains := (drains st)[j := ShutdownReturned]\<rparr>)"
proof -
  have c: "length (filter (\<lambda>p. p = Quitting) ((drains st)[j := ShutdownReturned])) + 1 = length (filter (\<lambda>p. p = Quitting) (drains st))"
    using quitting_count_update [OF j, of ShutdownReturned] p by simp
  have pos: "0 < length (filter (\<lambda>p. p = Quitting) (drains st))"
    using j p by (rule quitting_positive)
  have sd: "shuttingDown (service st)"
    using inv pos unfolding drain_inv_def by (auto split: if_splits)
  have q1: "quits (service st) = 1"
    using inv sd unfolding drain_inv_def by simp
  have c0: "length (filter (\<lambda>p. p = Quitting) ((drains st)[j := ShutdownReturned])) = 0"
    using inv sd c unfolding drain_inv_def by simp
  show ?thesis
    using c0 new q1 unfolding drain_inv_def by simp
qed

lemma shutdown_finally_facts:
  "fst (shutdown_finally s) = ShutdownReturned"
  "\<not> distributedLock (snd (shutdown_finally s))"
  "\<not> shuttingDown (snd (shutdown_finally s))"
  "quits (snd (shutdown_finally s)) = quits s"
  by (simp_all add: shutdown_finally_def emit_def quits_def)

lemma quits_emit_log: "quits (emit (Logged l m) s) = quits s"
  by (simp add: emit_def quits_def)

lemma quits_shuttingDown: "quits (s\<lparr>shuttingDown := b\<rparr>) = quits s"
  by (simp add: quits_def)

lemma flags_emit:
  "distributedLock (emit e s) = distributedLock s" "shuttingDown (emit e s) = shuttingDown s"
  by (simp_all add: emit_def)

lemma quits_emit_quit: "quits (emit BackendQuit s) = quits s + 1"
  by (simp add: emit_def quits_def)

lemma drain_inv_loop:
  assumes inv: "drain_inv st" and j: "j < length (drains st)"
    and p: "drains st ! j \<noteq> Quitting"
  shows "drain_inv (st\<lparr>service := snd (shutdown_loop (service st)),
                        drains := (drains st)[j := fst (shutdown_loop (service st))]\<rparr>)"
proof -
  let ?s = "service st"
  have i2: "shuttingDown ?s \<longrightarrow> distributedLock ?s"
    using inv unfolding drain_inv_def by blast
  consider (wait) "\<not> areAllLocksReleased ?s"
    | (busy) "areAllLocksReleased ?s" "shuttingDown ?s"
    | (quit) "areAllLocksReleased ?s" "\<not> shuttingDown ?s" "distributedLock ?s"
    | (gone) "areAllLocksReleased ?s" "\<not> shuttingDown ?s" "\<not> distributedLock ?s"
    by blast
  then show ?thesis
  proof cases
    case wait
    then have r: "shutdown_loop ?s = (Polling 250, ?s)" by (simp add: shutdown_loop_def)
    show ?thesis unfolding r fst_conv snd_conv
      by (rule drain_inv_keep [OF inv j p(1)]) simp_all
  next
    case busy
    then have r: "shutdown_loop ?s = (ShutdownReturned, ?s)"
      by (simp add: shutdown_loop_def shutdown_after_loop_def)
    show ?thesis unfolding r fst_conv snd_conv
      by (rule drain_inv_keep [OF inv j p(1)]) (simp_all add: busy)
  next
    case quit
    then have r: "shutdown_loop ?s =
        (Quitting, emit BackendQuit ((emit (Logged Verbose RedlockShuttingDown) ?s)\<lparr>shuttingDown := True\<rparr>))"
      by (simp add: shutdown_loop_def shutdown_after_loop_def Let_def emit_def)
    show ?thesis unfolding r fst_conv snd_conv
      by (rule drain_inv_start_quit [OF inv j p(1)]) (simp_all add: quit emit_def quits_def)
  next
    case gone
    then have r: "shutdown_loop ?s = shutdown_finally
        (emit (Logged Verbose (ErrorQuitting ''Cannot read properties of undefined''))
          ((emit (Logged Verbose RedlockShuttingDown) ?s)\<lparr>shuttingDown := True\<rparr>))"
      by (simp add: shutdown_loop_def shutdown_after_loop_def Let_def emit_def)
    show ?thesis unfolding r
      by (rule drain_inv_keep [OF inv j p(1)])
         (simp_all add: shutdown_finally_facts gone quits_emit_log quits_shuttingDown)
  qed
qed

lemma drain_inv_drain:
  assumes inv: "drain_inv st"
  shows "drain_inv (system_step (Drain j q) st)"
proof (cases "j < length (drains st)")
  case False
  then show ?thesis using inv by simp
next
  case True
  let ?s = "service st"
  note st' = step_Drain [OF True, of q]
  show ?thesis
  proof (cases "drains st ! j")
    case Quitting
    let ?s1 = "case q of None \<Rightarrow> ?s | Some err \<Rightarrow> emit (Logged Verbose (ErrorQuitting (message err))) ?s"
    have r: "shutdown_resume Quitting q ?s = shutdown_finally ?s1"
      by (simp add: shutdown_resume_def)
    have q1: "quits ?s1 = quits ?s" by (cases q) (simp_all add: quits_emit_log)
    show ?thesis unfolding st' Quitting r shutdown_finally_facts(1)
      by (rule drain_inv_end_quit [OF inv True Quitting]) (simp_all add: shutdown_finally_facts q1)
  next
    case ShutdownReturned
    have r: "shutdown_resume ShutdownReturned q ?s = (ShutdownReturned, ?s)"
      by (simp add: shutdown_resume_def)
    have i4: "\<not> (distributedLock ?s \<and> \<not> shuttingDown ?s)"
      using inv True ShutdownReturned nth_mem [OF True] unfolding drain_inv_def by auto
    show ?thesis unfolding st' ShutdownReturned r fst_conv snd_conv
      by (rule drain_inv_keep [OF inv True]) (simp_all add: ShutdownReturned i4)
  next
    case (Polling d)
    have r: "shutdown_resume (Polling d) q ?s = shutdown_loop ?s"
      by (simp add: shutdown_resume_def)
    show ?thesis unfolding st' Polling r
      by (rule drain_inv_loop [OF inv True]) (simp add: Polling)
  next
    case ShutdownNotCalled
    show ?thesis
    proof (cases "distributedLock ?s")
      case True
      then have r: "shutdown_resume ShutdownNotCalled q ?s = shutdown_loop ?s"
        by (simp add: shutdown_resume_def)
      show ?thesis unfolding st' ShutdownNotCalled r
        by (rule drain_inv_loop [OF inv \<open>j < length (drains st)\<close>]) (simp add: ShutdownNotCalled)
    next
      case False
      then have r: "shutdown_resume ShutdownNotCalled q ?s = (ShutdownReturned, ?s)"
        by (simp add: shutdown_resume_def)
      show ?thesis unfolding st' ShutdownNotCalled r fst_conv snd_conv
        by (rule drain_inv_keep [OF inv \<open>j < length (drains st)\<close>]) (simp_all add: ShutdownNotCalled False)
    qed
  qed
qed

lemma drain_inv_run: "drain_inv st \<Longrightarrow> drain_inv (run acts st)"
  unfolding run_def
proof (induction acts arbitrary: st)
  case Nil
  then show ?case by simp
next
  case (Cons a acts)
  have "drain_inv (system_step a st)"
    using Cons.prems drain_inv_task drain_inv_drain by (cases a) simp_all
  then show ?case using Cons.IH by simp
qed

lemma drain_inv_initial: "drain_inv (initial True calls n)"
  by (simp add: drain_inv_def initial_def quits_def)

lemma polls_every_250:
  "fst (shutdown_resume p q s) = Polling d \<Longrightarrow> d = 250"
  by (cases p; cases q)
     (auto simp add: shutdown_resume_def shutdown_loop_def shutdown_after_loop_def shutdown_finally_def
        Let_def split: if_splits)

lemma quit_in_loop_only:
  assumes "quits (snd (shutdown_resume p q s)) \<noteq> quits s"
  shows "(p = ShutdownNotCalled \<and> distributedLock s \<or> (\<exists>d. p = Polling d)) \<and> areAllLocksReleased s"
  using assms
  by (cases p; cases q)
     (auto simp add: shutdown_resume_def shutdown_loop_def shutdown_after_loop_def shutdown_finally_def
        emit_def quits_def Let_def split: if_splits)

lemma loop_waits:
  assumes "p = ShutdownNotCalled \<and> distributedLock s \<or> (\<exists>d. p = Polling d)"
    and "\<not> areAllLocksReleased s"
  shows "shutdown_resume p q s = (Polling 250, s)"
  using assms by (auto simp add: shutdown_resume_def shutdown_loop_def)

lemma loop_leaves:
  assumes "p = ShutdownNotCalled \<and> distributedLock s \<or> (\<exists>d. p = Polling d)"
    and "areAllLocksReleased s"
  shows "fst (shutdown_resume p q s) = Quitting \<or> fst (shutdown_resume p q s) = ShutdownReturned"
  using assms
  by (auto simp add: shutdown_resume_def shutdown_loop_def shutdown_after_loop_def shutdown_finally_def
      emit_def Let_def split: if_splits)

text \<open>
  C4, as stated, fails: a lock can be acquired while \<open>quit()\<close> is pending, and a
  \<open>shutdown\<close> call that finds the Redlock instance gone returns at once. In the run
  below the first call leaves the loop with no lock held and calls \<open>quit\<close>; an
  \<open>applyLock\<close> call then acquires a lock; the first call returns, the second call
  starts and returns: both have returned and the counter stands at 1.
\<close>

theorem shutdown_returns_with_lock_held:
  "drains (run [Drain 0 None, Task 0, Task 0, Drain 0 None, Drain 1 None]
             (initial True [(''a'', 100, Inr (AcquiredLock None))] 2))
     = [ShutdownReturned, ShutdownReturned]
   \<and> lockCounter (service (run [Drain 0 None, Task 0, Task 0, Drain 0 None, Drain 1 None]
             (initial True [(''a'', 100, Inr (AcquiredLock None))] 2)))
     = [(''a'', Num 1)]"
  by code_simp

text \<open>
  C4, amended. From the state the constructor leaves with a lock client, under any
  schedule of any number of \<open>shutdown\<close> and \<open>applyLock\<close> calls on resources not named
  like a member of \<open>Object.prototype\<close>: the backend sees at most one \<open>quit\<close>, and exactly
  one as soon as any \<open>shutdown\<close> call has returned; a \<open>shutdown\<close> call that found the
  lock manager enabled, or that waits in the loop, when resumed while some lock counter
  is not zero changes nothing and waits on a timer of 250 ms, and when resumed while
  every lock counter is zero, and then no call holds a lock, leaves the loop; and
  \<open>quit\<close> is called only by such a call at such a moment.
\<close>

theorem shutdown_waits_for_zero:
  fixes calls n acts
  defines "st \<equiv> run acts (initial True calls n)"
  assumes safe: "list_all (\<lambda>c. fst c \<notin> set object_prototype_names) calls"
  shows "quits (service st) \<le> 1
    \<and> (ShutdownReturned \<in> set (drains st) \<longrightarrow> quits (service st) = 1)
    \<and> (\<forall>p q. (p = ShutdownNotCalled \<and> distributedLock (service st) \<or> (\<exists>d. p = Polling d)) \<longrightarrow>
          (if list_all (\<lambda>(k, v). v = Num 0) (lockCounter (service st))
           then (fst (shutdown_resume p q (service st)) = Quitting
                   \<or> fst (shutdown_resume p q (service st)) = ShutdownReturned)
                \<and> list_all (\<lambda>t. \<not> holds (t_pc t)) (tasks st)
           else shutdown_resume p q (service st) = (Polling 250, service st)))
    \<and> (\<forall>p q. quits (snd (shutdown_resume p q (service st))) \<noteq> quits (service st) \<longrightarrow>
          (p = ShutdownNotCalled \<and> distributedLock (service st) \<or> (\<exists>d. p = Polling d))
          \<and> list_all (\<lambda>(k, v). v = Num 0) (lockCounter (service st))
          \<and> list_all (\<lambda>t. \<not> holds (t_pc t)) (tasks st))"
proof -
  have inv: "drain_inv st"
    unfolding st_def by (rule drain_inv_run [OF drain_inv_initial])
  have cm: "counters_match (tasks st) (lockCounter (service st))"
    unfolding st_def by (rule counters_match_reachable [OF safe])
  note rz = released_iff_zero [OF cm]
  have a: "quits (service st) \<le> 1"
    using inv unfolding drain_inv_def by (auto split: if_splits)
  have b: "ShutdownReturned \<in> set (drains st) \<longrightarrow> quits (service st) = 1"
    using inv unfolding drain_inv_def by (auto split: if_splits)
  have c: "if list_all (\<lambda>(k, v). v = Num 0) (lockCounter (service st))
           then (fst (shutdown_resume p q (service st)) = Quitting
                   \<or> fst (shutdown_resume p q (service st)) = ShutdownReturned)
                \<and> list_all (\<lambda>t. \<not> holds (t_pc t)) (tasks st)
           else shutdown_resume p q (service st) = (Polling 250, service st)"
    if l: "p = ShutdownNotCalled \<and> distributedLock (service st) \<or> (\<exists>d. p = Polling d)" for p q
  proof (cases "list_all (\<lambda>(k, v). v = Num 0) (lockCounter (service st))")
    case True
    then have "areAllLocksReleased (service st)" using rz by simp
    then have "fst (shutdown_resume p q (service st)) = Quitting
                   \<or> fst (shutdown_resume p q (service st)) = ShutdownReturned"
      using l by (rule loop_leaves [rotated])
    then show ?thesis using True zero_none_holds [OF cm True] by simp
  next
    case False
    then have "\<not> areAllLocksReleased (service st)" using rz by simp
    then have "shutdown_resume p q (service st) = (Polling 250, service st)"
      using l by (rule loop_waits [rotated])
    then show ?thesis using False by simp
  qed
  have d: "(p = ShutdownNotCalled \<and> distributedLock (service st) \<or> (\<exists>d. p = Polling d))
          \<and> list_all (\<lambda>(k, v). v = Num 0) (lockCounter (service st))
          \<and> list_all (\<lambda>t. \<not> holds (t_pc t)) (tasks st)"
    if "quits (snd (shutdown_resume p q (service st))) \<noteq> quits (service st)" for p q
  proof -
    note qi = quit_in_loop_only [OF that]
    then have z: "list_all (\<lambda>(k, v). v = Num 0) (lockCounter (service st))" using rz by simp
    show ?thesis using qi z zero_none_holds [OF cm z] by blast
  qed
  show ?thesis using a b c d by blast
qed

theorem shutdown_waits_for_zero_witness:
  "list_all (\<lambda>c. fst c \<notin> set object_prototype_names) [(''a'', 100 :: int, Inr (AcquiredLock None) :: js_error + acquired_lock)]
   \<and> lockCounter (service (run [Task 0, Task 0, Drain 0 None, Drain 1 None]
        (initial True [(''a'', 100, Inr (AcquiredLock None))] 2))) = [(''a'', Num 1)]
   \<and> drains (run [Task 0, Task 0, Drain 0 None, Drain 1 None]
        (initial True [(''a'', 100, Inr (AcquiredLock None))] 2)) = [Polling 250, Polling 250]
   \<and> shutdown_resume (Polling 250) None
        (service (run [Task 0, Task 0, Drain 0 None, Drain 1 None]
           (initial True [(''a'', 100, Inr (AcquiredLock None))] 2)))
      = (Polling 250,
         service (run [Task 0, Task 0, Drain 0 None, Drain 1 None]
           (initial True [(''a'', 100, Inr (AcquiredLock None))] 2)))
   \<and> drains (run [Task 0, Task 0, Drain 0 None, Drain 1 None, Task 0, Task 0, Task 0,
                  Drain 0 None, Drain 1 None, Drain 0 None]
        (initial True [(''a'', 100, Inr (AcquiredLock None))] 2)) = [ShutdownReturned, ShutdownReturned]
   \<and> quits (service (run [Task 0, Task 0, Drain 0 None, Drain 1 None, Task 0, Task 0, Task 0,
                  Drain 0 None, Drain 1 None, Drain 0 None]
        (initial True [(''a'', 100, Inr (AcquiredLock None))] 2))) = 1"
proof -
  define calls :: "(string \<times> int \<times> (js_error + acquired_lock)) list"
    where "calls = [(''a'', 100, Inr (AcquiredLock None))]"
  define st1 where "st1 = run [Task 0, Task 0, Drain 0 None, Drain 1 None] (initial True calls 2)"
  define st2 where "st2 = run [Task 0, Task 0, Drain 0 None, Drain 1 None, Task 0, Task 0, Task 0,
                  Drain 0 None, Drain 1 None, Drain 0 None] (initial True calls 2)"
  have safe: "list_all (\<lambda>c. fst c \<notin> set object_prototype_names) calls"
    by (simp add: calls_def object_prototype_names_def)
  have c1: "lockCounter (service st1) = [(''a'', Num 1)]"
    unfolding st1_def calls_def by code_simp
  have d1: "drains st1 = [Polling 250, Polling 250]"
    unfolding st1_def calls_def by code_simp
  have d2: "drains st2 = [ShutdownReturned, ShutdownReturned]"
    unfolding st2_def calls_def by code_simp
  have nz: "\<not> list_all (\<lambda>(k, v). v = Num 0) (lockCounter (service st1))"
    by (simp add: c1)
  have l: "Polling 250 = ShutdownNotCalled \<and> distributedLock (service st1) \<or> (\<exists>d. Polling 250 = Polling d)"
    by simp
  note i1 = shutdown_waits_for_zero [OF safe, of "[Task 0, Task 0, Drain 0 None, Drain 1 None]" 2,
      THEN conjunct2, THEN conjunct2, THEN conjunct1, THEN spec, THEN spec, THEN mp,
      of "Polling 250" None]
  have w: "shutdown_resume (Polling 250) None (service st1) = (Polling 250, service st1)"
    using i1 l nz unfolding st1_def by simp
  note i2 = shutdown_waits_for_zero [OF safe, of "[Task 0, Task 0, Drain 0 None, Drain 1 None, Task 0, Task 0, Task 0,
                  Drain 0 None, Drain 1 None, Drain 0 None]" 2, THEN conjunct2, THEN conjunct1]
  have q: "quits (service st2) = 1"
    using i2 d2 unfolding st2_def by simp
  show ?thesis
    using safe c1 d1 w d2 q unfolding st1_def st2_def calls_def by simp
qed

section \<open>Properties of the cache service\<close>

lemma js_split_from_nonempty: "js_split_from sep acc s \<noteq> []"
  by (induction sep acc s rule: js_split_from.induct) auto

lemma js_join_Cons: "ps \<noteq> [] \<Longrightarrow> js_join sep (p # ps) = p @ sep @ js_join sep ps"
  by (cases ps) simp_all

lemma js_join_split_from: "js_join sep (js_split_from sep acc s) = rev acc @ s"
proof (induction sep acc s rule: js_split_from.induct)
  case (1 sep acc)
  then show ?case by simp
next
  case (2 sep acc c cs)
  show ?case
  proof (cases "sep \<noteq> [] \<and> take (length sep) (c # cs) = sep")
    case True
    have "js_join sep (js_split_from sep acc (c # cs))
        = rev acc @ sep @ js_join sep (js_split_from sep [] (drop (length sep) (c # cs)))"
      using True by (simp add: js_join_Cons js_split_from_nonempty del: take_Suc_Cons drop_Suc_Cons)
    also have "\<dots> = rev acc @ sep @ drop (length sep) (c # cs)"
      using 2(1) True by simp
    also have "\<dots> = rev acc @ take (length sep) (c # cs) @ drop (length sep) (c # cs)"
      using True by simp
    finally show ?thesis by (simp del: take_Suc_Cons drop_Suc_Cons)
  next
    case False
    then show ?thesis using 2(2) by auto
  qed
qed

lemma js_join_split: "js_join sep (js_split sep s) = s"
  by (simp add: js_split_def js_join_split_from)

lemma split_two:
  assumes "js_split sep key = [c, q]"
  shows "key = c @ sep @ q"
  using js_join_split [of sep key] assms by simp

lemma fold_del_map:
  "fold apply_command (map (\<lambda>m. Del [f m]) ms) st = (\<lambda>k. if k \<in> f ` set ms then None else st k)"
  by (induction ms arbitrary: st) (auto simp: fun_eq_iff)

lemma fold_del:
  "fold apply_command (map (\<lambda>m. Del [f m]) ms @ [Del [c]]) st =
     (\<lambda>k. if k = c \<or> k \<in> f ` set ms then None else st k)"
  by (auto simp: fold_del_map fun_eq_iff)

text \<open>The rounding is exact up to a relative error of \<open>2 ^ -53\<close>.\<close>

lemma pow_step: "(2::real) powi (e + 1) = 2 * 2 powi e" "(2::real) powi (e - 1) = 2 powi e / 2"
  by (simp_all add: power_int_add power_int_diff)

lemma expo_bounds: "0 < x \<Longrightarrow> 2 powi (expo x) \<le> x \<and> x < 2 * 2 powi (expo x)"
proof (induction x rule: expo.induct)
  case (1 x)
  show ?case
  proof (cases "x < 1")
    case True
    have ih: "2 powi (expo (2 * x)) \<le> 2 * x \<and> 2 * x < 2 * 2 powi (expo (2 * x))"
      using 1(1) [OF True] 1(3) by simp
    have e: "expo x = expo (2 * x) - 1" using True 1(3) by (subst expo.simps) simp
    show ?thesis unfolding e pow_step using ih by simp
  next
    case False
    show ?thesis
    proof (cases "2 \<le> x")
      case True
      have ih: "2 powi (expo (x / 2)) \<le> x / 2 \<and> x / 2 < 2 * 2 powi (expo (x / 2))"
        using 1(2) [OF False True] 1(3) by simp
      have e: "expo x = expo (x / 2) + 1" using False True by (subst expo.simps) simp
      show ?thesis unfolding e pow_step using ih by simp
    next
      case b: False
      have e: "expo x = 0" using False b by (subst expo.simps) simp
      show ?thesis unfolding e using False b by simp
    qed
  qed
qed

lemma round_half_even_error: "\<bar>real_of_int (round_half_even y) - y\<bar> \<le> 1 / 2"
  unfolding round_half_even_def Let_def by (auto; linarith)

lemma fl64_error: "\<bar>fl64 x - x\<bar> \<le> \<bar>x\<bar> / 2 ^ 53"
proof (cases "x = 0")
  case True
  then show ?thesis by (simp add: fl64_def)
next
  case False
  define e where "e = expo \<bar>x\<bar>"
  define q :: real where "q = 2 powi (e - 52)"
  have qpos: "0 < q" by (simp add: q_def)
  have lo: "2 powi e \<le> \<bar>x\<bar>" using expo_bounds [of "\<bar>x\<bar>"] False by (simp add: e_def)
  have qe: "q * 2 ^ 52 = 2 powi e"
    by (simp add: q_def power_int_diff)
  have f: "fl64 x = real_of_int (round_half_even (x / q)) * q"
    using False by (simp add: fl64_def e_def q_def Let_def)
  have "fl64 x - x = (real_of_int (round_half_even (x / q)) - x / q) * q"
    using qpos by (simp add: f field_simps)
  then have "\<bar>fl64 x - x\<bar> = \<bar>real_of_int (round_half_even (x / q)) - x / q\<bar> * q"
    using qpos by (simp add: abs_mult)
  also have "\<dots> \<le> (1 / 2) * q"
    using round_half_even_error [of "x / q"] qpos by (simp add: mult_right_mono)
  also have "\<dots> = (q * 2 ^ 52) / 2 ^ 53" by simp
  also have "\<dots> \<le> \<bar>x\<bar> / 2 ^ 53" unfolding qe using lo by (simp add: divide_right_mono)
  finally show ?thesis .
qed

lemma fl64_nonneg_bounds:
  assumes "0 \<le> y"
  shows "y - y / 2 ^ 53 \<le> fl64 y" and "fl64 y \<le> y + y / 2 ^ 53"
proof -
  have e: "\<bar>fl64 y - y\<bar> \<le> y / 2 ^ 53" using fl64_error [of y] assms by simp
  show "y - y / 2 ^ 53 \<le> fl64 y" using e by linarith
  show "fl64 y \<le> y + y / 2 ^ 53" using e by linarith
qed

lemma fl64_tenth: "fl64 (1 / 10) = 3602879701896397 / 36028797018963968"
  by code_simp

lemma ttlVariant_default: "ttlVariant 7200 0 = 6840"
  by code_simp

lemma ttlVariant_largest_draw:
  "ttlVariant 7200 (1 - 1 / 2 ^ 52) = 7560" "ttlVariant 20 (1 - 1 / 2 ^ 52) = 21"
  by code_simp+

text \<open>
  The value of which \<open>ttlVariant\<close> takes the floor is within \<open>T / 2 ^ 46\<close> of the exact
  \<open>T - T * 0.05 + r * T * 0.1\<close>: six roundings, each with a relative error of at most
  \<open>2 ^ -53\<close>, on values that do not exceed \<open>1.05 * T\<close> by much.
\<close>

lemma jitter_value:
  assumes T: "0 < T" and r: "0 \<le> r" "r < 1"
  defines "x \<equiv> fl64 (fl64 (T - fl64 (fl64 (TTL_VARIANT_PERCENTAGE * T) / 2))
                  + fl64 (fl64 (TTL_VARIANT_PERCENTAGE * T) * r))"
  shows "\<bar>x - (T - T / 20 + (r * T) / 10)\<bar> \<le> T / 2 ^ 46"
proof -
  define P where "P = TTL_VARIANT_PERCENTAGE"
  define pt where "pt = P * T"
  define a where "a = fl64 pt"
  define h where "h = fl64 (a / 2)"
  define s where "s = fl64 (T - h)"
  define ar where "ar = a * r"
  define v where "v = fl64 ar"
  define rt where "rt = r * T"
  have x: "x = fl64 (s + v)"
    by (simp add: x_def s_def v_def h_def a_def P_def ar_def pt_def)
  have rt: "0 \<le> rt" "rt \<le> T"
    using T r by (simp_all add: rt_def mult_left_le_one_le)
  have P1: "1 / 10 - (1 / 10) / 2 ^ 53 \<le> P" and P2: "P \<le> 1 / 10 + (1 / 10) / 2 ^ 53"
    using fl64_nonneg_bounds [of "1 / 10"] by (simp_all add: P_def TTL_VARIANT_PERCENTAGE_def)
  have pt1: "(1 / 10 - (1 / 10) / 2 ^ 53) * T \<le> pt"
    unfolding pt_def using P1 T by (intro mult_right_mono) simp_all
  have pt2: "pt \<le> (1 / 10 + (1 / 10) / 2 ^ 53) * T"
    unfolding pt_def using P2 T by (intro mult_right_mono) simp_all
  have pt0: "0 \<le> pt" using pt1 T by simp
  note fa = fl64_nonneg_bounds [OF pt0, folded a_def]
  have a1: "(1 / 10 - 2 / 2 ^ 50) * T \<le> a" using fa(1) pt1 pt2 T by simp
  have a2: "a \<le> (1 / 10 + 2 / 2 ^ 50) * T" using fa(2) pt1 pt2 T by simp
  have a0: "0 \<le> a" using a1 T by simp
  have h0: "0 \<le> a / 2" using a0 by simp
  note fh = fl64_nonneg_bounds [OF h0, folded h_def]
  have h1: "(1 / 20 - 2 / 2 ^ 50) * T \<le> h" using fh(1) a1 a2 T by simp
  have h2: "h \<le> (1 / 20 + 2 / 2 ^ 50) * T" using fh(2) a1 a2 T by simp
  have s0: "0 \<le> T - h" using h2 T by simp
  note fs = fl64_nonneg_bounds [OF s0, folded s_def]
  have s1: "(19 / 20 - 4 / 2 ^ 50) * T \<le> s" using fs(1) h1 h2 T by (simp add: diff_divide_distrib add_divide_distrib)
  have s2: "s \<le> (19 / 20 + 4 / 2 ^ 50) * T" using fs(2) h1 h2 T by (simp add: diff_divide_distrib add_divide_distrib)
  have ar1: "(1 / 10 - 2 / 2 ^ 50) * rt \<le> ar"
  proof -
    have "(1 / 10 - 2 / 2 ^ 50) * T * r \<le> a * r" using a1 r by (intro mult_right_mono) simp_all
    thus ?thesis by (simp add: rt_def ar_def mult_ac)
  qed
  have ar2: "ar \<le> (1 / 10 + 2 / 2 ^ 50) * rt"
  proof -
    have "a * r \<le> (1 / 10 + 2 / 2 ^ 50) * T * r" using a2 r by (intro mult_right_mono) simp_all
    thus ?thesis by (simp add: rt_def ar_def mult_ac)
  qed
  have ar0: "0 \<le> ar" using a0 r by (simp add: ar_def)
  note fv = fl64_nonneg_bounds [OF ar0, folded v_def]
  have v1: "rt / 10 - (3 / 2 ^ 50) * T \<le> v" using fv(1) ar1 ar2 rt T by simp
  have v2: "v \<le> rt / 10 + (3 / 2 ^ 50) * T" using fv(2) ar1 ar2 rt T by simp
  have v0: "0 \<le> v" using fv(1) ar0 by simp
  have sv0: "0 \<le> s + v" using s1 v0 T by simp
  note fx = fl64_nonneg_bounds [OF sv0, folded x]
  have x1: "T - T / 20 + rt / 10 - (9 / 2 ^ 50) * T \<le> x" using fx(1) s1 s2 v1 v2 rt T by (simp add: diff_divide_distrib add_divide_distrib)
  have x2: "x \<le> T - T / 20 + rt / 10 + (9 / 2 ^ 50) * T" using fx(2) s1 s2 v1 v2 rt T by (simp add: diff_divide_distrib add_divide_distrib)
  have e1: "x - (T - T / 20 + rt / 10) \<le> T / 2 ^ 46" using x2 T by simp
  have e2: "- (x - (T - T / 20 + rt / 10)) \<le> T / 2 ^ 46" using x1 T by simp
  show ?thesis using e1 e2 unfolding rt_def by (rule abs_leI)
qed

text \<open>
  The rounding of the doubles can take the result above \<open>1.05 * T\<close>: for the double
  \<open>T = 0x1.aaaaaaaaaaaaap+2\<close>, just below \<open>20 / 3\<close>, and the draw \<open>1 - 2 ^ -52\<close> the sum
  rounds to 7 while \<open>1.05 * T\<close> is less than 7.
\<close>

lemma ttl_jitter_above_upper_bound:
  "ttlVariant (7505999378950826 / 2 ^ 50) (1 - 1 / 2 ^ 52) = 7
   \<and> 1.05 * (7505999378950826 / 2 ^ 50) < (7::real)"
  by code_simp

text \<open>
  C7, as stated, fails: the jitter function rounds down, so that for a base TTL of 10
  and a draw of 0 the effective TTL is 9, which is neither \<open>10 - 10 * 0.05 + 0\<close> nor
  within \<open>[9.5, 10.5]\<close>.
\<close>

theorem ttl_jitter_counterexample:
  "\<not> (real_of_int (ttlVariant 10 0) = 10 - 10 * 0.05 + 0 * 10 * 0.1
      \<and> 0.95 * 10 \<le> real_of_int (ttlVariant 10 0) \<and> real_of_int (ttlVariant 10 0) \<le> 1.05 * 10)"
  by code_simp

text \<open>
  C7, amended. For every base TTL \<open>T\<close> between \<open>2 ^ -900\<close> and \<open>2 ^ 1000\<close> and every draw \<open>r\<close>
  in \<open>[0, 1)\<close> that is zero or at least \<open>2 ^ -64\<close> (the range in which no intermediate
  result of the computation leaves the normal range of doubles), the effective TTL is
  the floor of a number that differs from \<open>T - T * 0.05 + r * T * 0.1\<close> by at most
  \<open>T / 2 ^ 46\<close>, the rounding error of the doubles; it is greater than
  \<open>(0.95 - 2 ^ -46) * T - 1\<close> and at most \<open>(1.05 + 2 ^ -46) * T\<close>. It is what
  \<open>getTtlInSeconds\<close> returns for the option \<open>ttl = T\<close>.
\<close>

theorem ttl_jitter_floor:
  assumes "1 / 2 ^ 900 \<le> T" "T \<le> 2 ^ 1000" "0 \<le> r" "r < 1" "r = 0 \<or> 1 / 2 ^ 64 \<le> r"
  shows "(\<exists>x. ttlVariant T r = \<lfloor>x\<rfloor> \<and> \<bar>x - (T - T * 0.05 + r * T * 0.1)\<bar> \<le> T / 2 ^ 46)
    \<and> (0.95 - 1 / 2 ^ 46) * T - 1 < real_of_int (ttlVariant T r)
    \<and> real_of_int (ttlVariant T r) \<le> (1.05 + 1 / 2 ^ 46) * T
    \<and> getTtlInSeconds (Some T) cs r = ttlVariant T r"
proof -
  define x where "x = fl64 (fl64 (T - fl64 (fl64 (TTL_VARIANT_PERCENTAGE * T) / 2))
                  + fl64 (fl64 (TTL_VARIANT_PERCENTAGE * T) * r))"
  have T: "0 < T"
  proof -
    have "(0::real) < 1 / 2 ^ 900" by simp
    then show ?thesis using assms(1) by linarith
  qed
  have e: "ttlVariant T r = \<lfloor>x\<rfloor>"
    by (simp add: ttlVariant_def x_def)
  have v: "\<bar>x - (T - T / 20 + (r * T) / 10)\<bar> \<le> T / 2 ^ 46"
    unfolding x_def using T assms(3,4) by (rule jitter_value)
  have d: "T - T * 0.05 + r * T * 0.1 = T - T / 20 + (r * T) / 10" by simp
  define rt where "rt = r * T"
  have rT: "0 \<le> rt" "rt \<le> T"
    using assms(3,4) T by (simp_all add: rt_def mult_left_le_one_le)
  have v1: "x - (T - T / 20 + rt / 10) \<le> T / 2 ^ 46"
    using abs_le_D1 [OF v] by (simp only: rt_def)
  have v2: "- (x - (T - T / 20 + rt / 10)) \<le> T / 2 ^ 46"
    using abs_le_D2 [OF v] by (simp only: rt_def)
  have lo: "(19 / 20 - 1 / 2 ^ 46) * T \<le> x" using v2 rT by simp
  have hi: "x \<le> (21 / 20 + 1 / 2 ^ 46) * T" using v1 rT by simp
  have a: "(19 / 20 - 1 / 2 ^ 46) * T - 1 < real_of_int \<lfloor>x\<rfloor>" using lo by linarith
  have b: "real_of_int \<lfloor>x\<rfloor> \<le> (21 / 20 + 1 / 2 ^ 46) * T" using hi by linarith
  have g: "getTtlInSeconds (Some T) cs r = \<lfloor>x\<rfloor>"
    using T e by (simp add: getTtlInSeconds_def)
  have c1: "\<exists>y. ttlVariant T r = \<lfloor>y\<rfloor> \<and> \<bar>y - (T - T * 0.05 + r * T * 0.1)\<bar> \<le> T / 2 ^ 46"
    unfolding d using e v by blast
  have c2: "(0.95 - 1 / 2 ^ 46) * T - 1 < real_of_int (ttlVariant T r)"
    using a unfolding e by simp
  have c3: "real_of_int (ttlVariant T r) \<le> (1.05 + 1 / 2 ^ 46) * T"
    using b unfolding e by simp
  have c4: "getTtlInSeconds (Some T) cs r = ttlVariant T r"
    using g e by simp
  show ?thesis using c1 c2 c3 c4 by blast
qed

theorem ttl_jitter_floor_witness:
  "(1 / 2 ^ 900 \<le> (7200::real) \<and> (7200::real) \<le> 2 ^ 1000 \<and> (0::real) \<le> 1 / 2 \<and> (1 / 2::real) < 1
      \<and> 1 / 2 ^ 64 \<le> (1 / 2::real))
   \<and> (0.95 - 1 / 2 ^ 46) * 7200 - 1 < real_of_int (ttlVariant 7200 (1 / 2))
   \<and> real_of_int (ttlVariant 7200 (1 / 2)) \<le> (1.05 + 1 / 2 ^ 46) * 7200
   \<and> ttlVariant 7200 (1 / 2) = 7200"
proof -
  have h: "1 / 2 ^ 900 \<le> (7200::real)" "(7200::real) \<le> 2 ^ 1000" "(0::real) \<le> 1 / 2" "(1 / 2::real) < 1"
    "(1 / 2::real) = 0 \<or> 1 / 2 ^ 64 \<le> (1 / 2::real)"
    by simp_all
  have k: "ttlVariant 7200 (1 / 2) = 7200" by code_simp
  from ttl_jitter_floor [OF h]
  have "(0.95 - 1 / 2 ^ 46) * 7200 - 1 < real_of_int (ttlVariant 7200 (1 / 2))
      \<and> real_of_int (ttlVariant 7200 (1 / 2)) \<le> (1.05 + 1 / 2 ^ 46) * 7200"
    by (simp only: simp_thms)
  then show ?thesis using h(1-4) k by simp
qed


lemma keyDelimiter_nonempty: "keyDelimiter qp \<noteq> []"
  by (simp add: keyDelimiter_def)

lemma splitKey_two:
  "js_split (keyDelimiter qp) key = [c, q] \<Longrightarrow> splitKey qp key = (c, Some q)"
  by (simp add: splitKey_def)

lemma setQuery_store:
  assumes cl: "cs_client cs"
    and wf: "js_split (keyDelimiter qp) key = [c, q]"
    and ty: "\<forall>v e. b_store b c \<noteq> Some (Entry (RString v) e)"
  shows "\<exists>ms e. b_store (snd (setQuery qp cs key val ttl r1 r2 b)) c = Some (Entry (RSet ms) e) \<and> q \<in> set ms"
proof -
  have k: "key = c @ keyDelimiter qp @ q" using wf by (rule split_two)
  then have ne: "key \<noteq> c" using keyDelimiter_nonempty [of qp] by auto
  show ?thesis
  proof (cases "b_store b c")
    case None
    then show ?thesis using cl ne
      by (simp add: setQuery_def splitKey_two [OF wf] exec_pipeline_def Let_def)
  next
    case (Some en)
    obtain cont e where en: "en = Entry cont e" by (cases en)
    show ?thesis
    proof (cases cont)
      case (RString v)
      then show ?thesis using ty Some en by simp
    next
      case (RSet ms)
      then show ?thesis using cl ne Some en
        by (simp add: setQuery_def splitKey_two [OF wf] exec_pipeline_def Let_def)
    qed
  qed
qed

lemma delQuery_set:
  assumes cl: "cs_client cs"
    and st: "b_store b c = Some (Entry (RSet ms) e)" and ne: "ms \<noteq> []"
  shows "fst (delQuery qp cs c b) = Inr Undefined"
    and "b_store (snd (delQuery qp cs c b)) =
           (\<lambda>k. if k = c \<or> k \<in> (\<lambda>m. c @ '':'' @ qp @ ''='' @ m) ` set ms then None else b_store b k)"
proof -
  have q: "smembers_reply (b_store b) c = Inr ms" using st by (simp add: smembers_reply_def)
  have r: "delQuery qp cs c b =
      (Inr Undefined,
       exec_pipeline (map (\<lambda>query. Del [c @ '':'' @ qp @ ''='' @ query]) ms @ [Del [c]]) (send (Smembers c) b))"
    using cl ne by (simp add: delQuery_def q Let_def)
  show "fst (delQuery qp cs c b) = Inr Undefined" by (simp add: r)
  have "b_store (snd (delQuery qp cs c b)) =
      fold apply_command (map (\<lambda>query. Del [c @ '':'' @ qp @ ''='' @ query]) ms @ [Del [c]]) (b_store b)"
    unfolding r by (simp add: exec_pipeline_def send_def)
  then show "b_store (snd (delQuery qp cs c b)) =
           (\<lambda>k. if k = c \<or> k \<in> (\<lambda>m. c @ '':'' @ qp @ ''='' @ m) ` set ms then None else b_store b k)"
    by (simp only: fold_del)
qed

lemma delQuery_empty:
  assumes "b_store b k = None"
  shows "fst (delQuery qp cs k b) = Inr Undefined" and "b_store (snd (delQuery qp cs k b)) = b_store b"
  using assms
  by (simp_all add: delQuery_def smembers_reply_def send_def Let_def)

text \<open>
  C8. With a client, for a key that \<open>split\<close> cuts into exactly a scope prefix \<open>c\<close> and a
  query \<open>q\<close>, and a backend in which \<open>c\<close> does not hold a string: \<open>setQuery\<close> on the key
  followed by \<open>delQuery\<close> on \<open>c\<close> resolves, and leaves neither the entry of the key, nor
  the set at \<open>c\<close>, nor the entry of any member that the set had. And \<open>delQuery\<close> on a
  scope without a set resolves and leaves the stored keys as they were.
\<close>

theorem setQuery_then_delQuery:
  assumes cl: "cs_client cs"
    and wf: "js_split (keyDelimiter qp) key = [c, q]"
    and ty: "\<forall>v e. b_store b c \<noteq> Some (Entry (RString v) e)"
  shows "fst (delQuery qp cs c (snd (setQuery qp cs key val ttl r1 r2 b))) = Inr Undefined
    \<and> b_store (snd (delQuery qp cs c (snd (setQuery qp cs key val ttl r1 r2 b)))) key = None
    \<and> b_store (snd (delQuery qp cs c (snd (setQuery qp cs key val ttl r1 r2 b)))) c = None
    \<and> (\<forall>ms m. smembers_reply (b_store (snd (setQuery qp cs key val ttl r1 r2 b))) c = Inr ms \<and> m \<in> set ms \<longrightarrow>
          b_store (snd (delQuery qp cs c (snd (setQuery qp cs key val ttl r1 r2 b)))) (c @ keyDelimiter qp @ m) = None)
    \<and> (\<forall>k b'. b_store b' k = None \<longrightarrow>
          fst (delQuery qp cs k b') = Inr Undefined \<and> b_store (snd (delQuery qp cs k b')) = b_store b')"
proof -
  let ?b1 = "snd (setQuery qp cs key val ttl r1 r2 b)"
  obtain ms e where st: "b_store ?b1 c = Some (Entry (RSet ms) e)" and q: "q \<in> set ms"
    using setQuery_store [OF cl wf ty] by blast
  have ne: "ms \<noteq> []" using q by auto
  have k: "key = c @ '':'' @ qp @ ''='' @ q"
    using split_two [OF wf] by (simp add: keyDelimiter_def)
  note d = delQuery_set [OF cl st ne, of qp]
  have a: "fst (delQuery qp cs c ?b1) = Inr Undefined" by (rule d(1))
  have mem: "key \<in> (\<lambda>m. c @ '':'' @ qp @ ''='' @ m) ` set ms"
    using q k by blast
  have b: "b_store (snd (delQuery qp cs c ?b1)) key = None"
    unfolding d(2) using mem by simp
  have c: "b_store (snd (delQuery qp cs c ?b1)) c = None"
    by (simp add: d(2))
  have m: "b_store (snd (delQuery qp cs c ?b1)) (c @ keyDelimiter qp @ m) = None"
    if "smembers_reply (b_store ?b1) c = Inr ms'" "m \<in> set ms'" for ms' m
  proof -
    have "ms' = ms" using that(1) st by (simp add: smembers_reply_def)
    then show ?thesis using that(2) by (simp add: d(2) keyDelimiter_def)
  qed
  have n: "\<forall>k b'. b_store b' k = None \<longrightarrow>
          fst (delQuery qp cs k b') = Inr Undefined \<and> b_store (snd (delQuery qp cs k b')) = b_store b'"
    using delQuery_empty by blast
  show ?thesis using a b c m n by blast
qed

theorem setQuery_then_delQuery_witness:
  "cs_client \<lparr>cs_client = True, cs_ready = True, cs_cacheTtl = 7200\<rparr>
   \<and> js_split (keyDelimiter ''#query#'') ''feed:1:#query#=p=0'' = [''feed:1'', ''p=0'']
   \<and> b_store (snd (delQuery ''#query#'' \<lparr>cs_client = True, cs_ready = True, cs_cacheTtl = 7200\<rparr> ''feed:1''
         (snd (setQuery ''#query#'' \<lparr>cs_client = True, cs_ready = True, cs_cacheTtl = 7200\<rparr>
                 ''feed:1:#query#=p=0'' ''[]'' None 0 0 \<lparr>b_store = Map.empty, b_calls = []\<rparr>))))
       ''feed:1:#query#=p=0'' = None
   \<and> b_store (snd (delQuery ''#query#'' \<lparr>cs_client = True, cs_ready = True, cs_cacheTtl = 7200\<rparr> ''feed:1''
         (snd (setQuery ''#query#'' \<lparr>cs_client = True, cs_ready = True, cs_cacheTtl = 7200\<rparr>
                 ''feed:1:#query#=p=0'' ''[]'' None 0 0 \<lparr>b_store = Map.empty, b_calls = []\<rparr>))))
       ''feed:1'' = None"
proof -
  define cs where "cs = \<lparr>cs_client = True, cs_ready = True, cs_cacheTtl = 7200\<rparr>"
  define b where "b = \<lparr>b_store = Map.empty, b_calls = []\<rparr>"
  have h1: "cs_client cs" by (simp add: cs_def)
  have h2: "js_split (keyDelimiter ''#query#'') ''feed:1:#query#=p=0'' = [''feed:1'', ''p=0'']"
    by (simp add: js_split_def keyDelimiter_def)
  have h3: "\<forall>v e. b_store b ''feed:1'' \<noteq> Some (Entry (RString v) e)" by (simp add: b_def)
  note inst = setQuery_then_delQuery [OF h1 h2 h3, of "''[]''" None 0 0]
  have "b_store (snd (delQuery ''#query#'' cs ''feed:1''
          (snd (setQuery ''#query#'' cs ''feed:1:#query#=p=0'' ''[]'' None 0 0 b)))) ''feed:1:#query#=p=0'' = None"
    by (rule inst [THEN conjunct2, THEN conjunct1])
  moreover have "b_store (snd (delQuery ''#query#'' cs ''feed:1''
          (snd (setQuery ''#query#'' cs ''feed:1:#query#=p=0'' ''[]'' None 0 0 b)))) ''feed:1'' = None"
    by (rule inst [THEN conjunct2, THEN conjunct2, THEN conjunct1])
  ultimately show ?thesis using h1 h2 unfolding cs_def b_def by simp
qed

text \<open>
  C9, as stated, fails: the cache operations test the client, not \<open>cacheEnabled()\<close>.
  With a client that is not ready, \<open>cacheEnabled()\<close> is false and \<open>set\<close> still sends its
  command to the backend.
\<close>

theorem cache_disabled_counterexample:
  "\<not> cacheEnabled \<lparr>cs_client = True, cs_ready = False, cs_cacheTtl = 7200\<rparr>
   \<and> b_calls (snd (cache_set \<lparr>cs_client = True, cs_ready = False, cs_cacheTtl = 7200\<rparr> ''k'' ''v'' None 0
                     \<lparr>b_store = Map.empty, b_calls = []\<rparr>)) = [[SetEx ''k'' ''v'' 6840]]"
  by (simp add: cacheEnabled_def cache_set_def send_def getTtlInSeconds_def ttlVariant_default)

text \<open>
  C9, amended. Without a client, \<open>set\<close>, \<open>get\<close>, \<open>del\<close>, \<open>setQuery\<close> and \<open>delQuery\<close>
  resolve with \<open>undefined\<close> and \<open>delByPattern\<close> returns \<open>undefined\<close>, none of them
  calling the backend; and whenever \<open>cacheEnabled()\<close> is false, or there is no cache
  service, \<open>invalidateByKey\<close> and \<open>invalidateQuery\<close> resolve with \<open>undefined\<close> without
  calling the backend.
\<close>

theorem cache_noop_without_client:
  "(\<not> cs_client cs \<longrightarrow>
       cache_set cs key val ttl r b = (Inr Undefined, b)
     \<and> cache_get cs key b = (Inr Undefined, b)
     \<and> cache_del cs keys b = (Inr Undefined, b)
     \<and> setQuery qp cs key val ttl r1 r2 b = (Inr Undefined, b)
     \<and> delQuery qp cs key b = (Inr Undefined, b)
     \<and> fst (delByPattern cs pattern b) = Undefined
     \<and> sc_backend (snd (delByPattern cs pattern b)) = b)
   \<and> (\<not> cacheEnabled cs \<longrightarrow>
       invalidateByKey (Some cs) key b = (Inr Undefined, b)
     \<and> invalidateQuery qp (Some cs) key b = (Inr Undefined, b))
   \<and> invalidateByKey None key b = (Inr Undefined, b)
   \<and> invalidateQuery qp None key b = (Inr Undefined, b)"
  by (simp add: cache_set_def cache_get_def cache_del_def setQuery_def delQuery_def delByPattern_def
      invalidateByKey_def invalidateQuery_def)

theorem cache_noop_without_client_witness:
  "\<not> cs_client \<lparr>cs_client = False, cs_ready = False, cs_cacheTtl = 7200\<rparr>
   \<and> \<not> cacheEnabled \<lparr>cs_client = False, cs_ready = False, cs_cacheTtl = 7200\<rparr>
   \<and> cache_set \<lparr>cs_client = False, cs_ready = False, cs_cacheTtl = 7200\<rparr> ''k'' ''v'' None 0
         \<lparr>b_store = Map.empty, b_calls = []\<rparr> = (Inr Undefined, \<lparr>b_store = Map.empty, b_calls = []\<rparr>)
   \<and> invalidateQuery ''#query#'' (Some \<lparr>cs_client = False, cs_ready = False, cs_cacheTtl = 7200\<rparr>) ''k''
         \<lparr>b_store = Map.empty, b_calls = []\<rparr> = (Inr Undefined, \<lparr>b_store = Map.empty, b_calls = []\<rparr>)"
proof -
  define cs where "cs = \<lparr>cs_client = False, cs_ready = False, cs_cacheTtl = 7200\<rparr>"
  define b where "b = \<lparr>b_store = Map.empty, b_calls = []\<rparr>"
  have h1: "\<not> cs_client cs" by (simp add: cs_def)
  have h2: "\<not> cacheEnabled cs" by (simp add: cs_def cacheEnabled_def)
  note inst = cache_noop_without_client [of cs "''k''" "''v''" None 0 b]
  have "cache_set cs ''k'' ''v'' None 0 b = (Inr Undefined, b)"
    using inst [THEN conjunct1, THEN mp, OF h1] by blast
  moreover have "invalidateQuery ''#query#'' (Some cs) ''k'' b = (Inr Undefined, b)"
    using inst [THEN conjunct2, THEN conjunct1, THEN mp, OF h2] by blast
  ultimately show ?thesis using h1 h2 unfolding cs_def b_def by simp
qed

text \<open>
  C6 does not hold of the code. With two pages of one key each, the promise is resolved
  as soon as the pipeline of the first page has settled: the stream has not ended and
  the key of the second page is still stored. An error of the stream after that
  moment does not reject the promise either.
\<close>

theorem delByPattern_resolves_early:
  "sc_promise (on_events [Data [''k1''], ExecSettled None]
       (snd (delByPattern \<lparr>cs_client = True, cs_ready = True, cs_cacheTtl = 7200\<rparr> ''k*''
          \<lparr>b_store = [''k1'' \<mapsto> Entry (RString ''a'') None, ''k2'' \<mapsto> Entry (RString ''b'') None],
            b_calls = []\<rparr>))) = Resolved
   \<and> b_store (sc_backend (on_events [Data [''k1''], ExecSettled None]
       (snd (delByPattern \<lparr>cs_client = True, cs_ready = True, cs_cacheTtl = 7200\<rparr> ''k*''
          \<lparr>b_store = [''k1'' \<mapsto> Entry (RString ''a'') None, ''k2'' \<mapsto> Entry (RString ''b'') None],
            b_calls = []\<rparr>)))) ''k2'' = Some (Entry (RString ''b'') None)
   \<and> sc_promise (on_events [Data [''k1''], ExecSettled None, StreamError (JsError ''scan failed'')]
       (snd (delByPattern \<lparr>cs_client = True, cs_ready = True, cs_cacheTtl = 7200\<rparr> ''k*''
          \<lparr>b_store = [''k1'' \<mapsto> Entry (RString ''a'') None, ''k2'' \<mapsto> Entry (RString ''b'') None],
            b_calls = []\<rparr>))) = Resolved"
  by (simp add: on_events_def delByPattern_def send_def exec_pipeline_def resolve_def reject_def)


section \<open>Properties of the failure handler\<close>

text \<open>
  C1, as stated, fails: on the last attempt of a backoff-eligible error whose message
  is not JSON, the handler marks the job failed and then throws while building the
  execution detail: no detail is recorded and no next job is enqueued, although the
  step does not stop on fail.
\<close>

theorem failure_handler_counterexample:
  "attemptsMade (example_job 3 None) = DEFAULT_ATTEMPTS
   \<and> \<not> stopOnFail (example_job 3 None)
   \<and> jobHasFailed True (example_job 3 None) (JobError (NotJson ''timeout'')) []
       = (Inl SyntaxError,
          [SetJobAsFailed (setJobAsFailedCommand (example_job 3 None) (JobError (NotJson ''timeout'')))])"
  by (simp add: jobHasFailed_def handleLastFailedWebhookFilter_def DEFAULT_ATTEMPTS_def example_job_def
      stopOnFail_def)

text \<open>
  C1, amended. For a failed job whose error is backoff-eligible, whose attempts equal
  \<open>DEFAULT_ATTEMPTS\<close> (3) and whose error message is a JSON text other than \<open>null\<close>, the
  handler resolves after exactly these calls: the job is marked failed; an execution
  detail \<open>WEBHOOK_FILTER_FAILED_LAST_RETRY\<close> is created whose raw field is the message
  of the parsed error; and, unless the step has \<open>shouldStopOnFail\<close> set, the next job
  is enqueued, once. For a failed job whose error is not backoff-eligible, the handler
  marks the job failed and does nothing else.
\<close>

theorem failure_handler_last_attempt:
  "(attemptsMade job = DEFAULT_ATTEMPTS \<and> raw_message err = Inr raw \<longrightarrow>
      jobHasFailed True job err w =
        (Inr (),
         w @ [SetJobAsFailed (setJobAsFailedCommand job err),
              CreateExecutionDetails
                \<lparr>ed_detailsFromJob = job_data job, ed_detail = WEBHOOK_FILTER_FAILED_LAST_RETRY,
                 ed_source = WEBHOOK, ed_status = PENDING, ed_isTest = False, ed_isRetry = True,
                 ed_raw = raw\<rparr>]
           @ (if stopOnFail job then []
              else [QueueNextJob
                      \<lparr>qn_parentId = jd_id (job_data job),
                       qn_environmentId = jd_environmentId (job_data job),
                       qn_organizationId = jd_organizationId (job_data job),
                       qn_userId = jd_userId (job_data job)\<rparr>])))
   \<and> jobHasFailed False job err w = (Inr (), w @ [SetJobAsFailed (setJobAsFailedCommand job err)])"
  by (simp add: jobHasFailed_def handleLastFailedWebhookFilter_def Let_def)

theorem failure_handler_last_attempt_witness:
  "attemptsMade (example_job 3 None) = DEFAULT_ATTEMPTS
   \<and> raw_message (JobError (JsonText (JObject [(''message'', JString ''webhook failed''), (''data'', JNull)])))
       = Inr (JObject [(''message'', JString ''webhook failed'')])
   \<and> length (filter (\<lambda>c. case c of QueueNextJob q \<Rightarrow> True | _ \<Rightarrow> False)
        (snd (jobHasFailed True (example_job 3 None)
           (JobError (JsonText (JObject [(''message'', JString ''webhook failed''), (''data'', JNull)]))) []))) = 1"
proof -
  define err where "err = JobError (JsonText (JObject [(''message'', JString ''webhook failed''), (''data'', JNull)]))"
  have h1: "attemptsMade (example_job 3 None) = DEFAULT_ATTEMPTS"
    by (simp add: example_job_def DEFAULT_ATTEMPTS_def)
  have h2: "raw_message err = Inr (JObject [(''message'', JString ''webhook failed'')])"
    by (simp add: err_def)
  have h3: "\<not> stopOnFail (example_job 3 None)" by (simp add: stopOnFail_def example_job_def)
  note inst = failure_handler_last_attempt [of "example_job 3 None" err
      "JObject [(''message'', JString ''webhook failed'')]" "[]", THEN conjunct1, THEN mp, OF conjI [OF h1 h2]]
  have "length (filter (\<lambda>c. case c of QueueNextJob q \<Rightarrow> True | _ \<Rightarrow> False)
        (snd (jobHasFailed True (example_job 3 None) err []))) = 1"
    unfolding inst using h3 by simp
  then show ?thesis using h1 h2 unfolding err_def by simp
qed

text \<open>
  C10. For a failed job whose error is backoff-eligible and whose attempts are fewer
  than \<open>DEFAULT_ATTEMPTS\<close>, the handler resolves without calling any collaborator: no
  status update, no execution detail, no next job.
\<close>

theorem failure_handler_intermediate_attempt:
  assumes "attemptsMade job < DEFAULT_ATTEMPTS"
  shows "jobHasFailed True job err w = (Inr (), w)"
  using assms by (simp add: jobHasFailed_def)

theorem failure_handler_intermediate_attempt_witness:
  "attemptsMade (example_job 1 None) < DEFAULT_ATTEMPTS
   \<and> jobHasFailed True (example_job 1 None) (JobError (NotJson ''timeout'')) [] = (Inr (), [])"
proof -
  have h: "attemptsMade (example_job 1 None) < DEFAULT_ATTEMPTS"
    by (simp add: example_job_def DEFAULT_ATTEMPTS_def)
  from failure_handler_intermediate_attempt [OF h] h show ?thesis by simp
qed

section \<open>Properties of the job builder\<close>

lemma buildJobs_steps:
  "buildJobs channelOf command notif steps = Inr jobs \<Longrightarrow>
   map j_step jobs = steps
   \<and> list_all (\<lambda>j. j_status j = JOB_PENDING \<and> j_transactionId j = c_transactionId command
                    \<and> j_notificationId j = n_id notif) jobs"
proof (induction steps arbitrary: jobs)
  case Nil
  then show ?case by simp
next
  case (Cons s steps)
  then show ?case
    by (auto simp: jobOfStep_def split: option.splits sum.splits)
qed

lemma example_execute:
  "execute example_digest_filter no_channel (Some example_notification) example_command
     = Inr [jobOfStep no_channel example_command example_notification stepC'
              \<lparr>mt_id = ''template-C'', mt_type = DIGEST\<rparr>]"
  by (simp add: execute_def createSteps_def filterActiveSteps_def filterDigestSteps_def
      example_digest_filter_def example_command_def stepA_def stepB_def stepC_def stepC'_def isDigestStep_def metadataType_def)

text \<open>
  C5, as stated, fails on its own example: for the template \<open>[A, B, C]\<close> and a digest
  filter that returns \<open>[C']\<close>, the jobs are built for \<open>[C']\<close>, not for \<open>[A, C']\<close>.
\<close>

theorem job_builder_counterexample:
  "c_template_steps example_command = [stepA, stepB, stepC]
   \<and> map_sum id (map j_step)
        (execute example_digest_filter no_channel (Some example_notification) example_command) = Inr [stepC']
   \<and> [stepC'] \<noteq> [stepA, stepC']"
  by (simp add: example_execute jobOfStep_def) (simp add: example_command_def)

text \<open>
  C5, amended. When \<open>execute\<close> returns jobs, there is one job per step of a step list,
  in its order, each pending and with the transaction and notification ids; the step
  list is the template's steps with \<open>active === true\<close>, in their order, when none of
  these is a digest step or the first digest step among them has no metadata type;
  and when the first digest step among them has a metadata type, the step list is the
  output of the digest filter, called with all the steps of the template. In the
  example the jobs are those of \<open>[C']\<close>.
\<close>

theorem job_builder_steps:
  assumes "execute digestFilterSteps channelOf (Some notif) command = Inr jobs"
  shows "(list_all (\<lambda>s. \<not> isDigestStep s) (filter (\<lambda>s. ns_active s = Some True) (c_template_steps command)) \<longrightarrow>
           map j_step jobs = filter (\<lambda>s. ns_active s = Some True) (c_template_steps command))
    \<and> (\<forall>d. find isDigestStep (filter (\<lambda>s. ns_active s = Some True) (c_template_steps command)) = Some d
            \<and> metadataType d = None \<longrightarrow>
           map j_step jobs = filter (\<lambda>s. ns_active s = Some True) (c_template_steps command))
    \<and> (\<forall>d ty. find isDigestStep (filter (\<lambda>s. ns_active s = Some True) (c_template_steps command)) = Some d
            \<and> metadataType d = Some ty \<longrightarrow>
           map j_step jobs =
             digestFilterSteps
               \<lparr>df_subscriberId = c_subscriber_id command, df_payload = c_payload command,
                df_steps = c_template_steps command, df_environmentId = c_environmentId command,
                df_organizationId = c_organizationId command, df_userId = c_userId command,
                df_templateId = c_template_id command, df_notificationId = n_id notif,
                df_transactionId = c_transactionId command, df_type = ty\<rparr>)
    \<and> list_all (\<lambda>j. j_status j = JOB_PENDING \<and> j_transactionId j = c_transactionId command
                    \<and> j_notificationId j = n_id notif) jobs"
proof -
  let ?active = "filter (\<lambda>s. ns_active s = Some True) (c_template_steps command)"
  have b: "buildJobs channelOf command notif (createSteps digestFilterSteps command notif) = Inr jobs"
    using assms by (simp add: execute_def)
  note r = buildJobs_steps [OF b]
  have s: "map j_step jobs = createSteps digestFilterSteps command notif" using r by blast
  have n: "find isDigestStep ?active = None" if "list_all (\<lambda>s. \<not> isDigestStep s) ?active"
    using that by (simp add: find_None_iff list_all_iff)
  have c1: "map j_step jobs = ?active" if "list_all (\<lambda>s. \<not> isDigestStep s) ?active"
    using n [OF that] by (simp add: s createSteps_def filterDigestSteps_def filterActiveSteps_def)
  have c2: "map j_step jobs = ?active"
    if "find isDigestStep ?active = Some d" "metadataType d = None" for d
    using that by (simp add: s createSteps_def filterDigestSteps_def filterActiveSteps_def)
  have c3: "map j_step jobs =
             digestFilterSteps
               \<lparr>df_subscriberId = c_subscriber_id command, df_payload = c_payload command,
                df_steps = c_template_steps command, df_environmentId = c_environmentId command,
                df_organizationId = c_organizationId command, df_userId = c_userId command,
                df_templateId = c_template_id command, df_notificationId = n_id notif,
                df_transactionId = c_transactionId command, df_type = ty\<rparr>"
    if "find isDigestStep ?active = Some d" "metadataType d = Some ty" for d ty
    using that by (simp add: s createSteps_def filterDigestSteps_def filterActiveSteps_def)
  show ?thesis using c1 c2 c3 r by blast
qed

theorem job_builder_steps_witness:
  "find isDigestStep (filter (\<lambda>s. ns_active s = Some True) (c_template_steps example_command)) = Some stepC
   \<and> metadataType stepC = Some ''regular''
   \<and> map j_step [jobOfStep no_channel example_command example_notification stepC'
              \<lparr>mt_id = ''template-C'', mt_type = DIGEST\<rparr>] = [stepC']"
proof -
  have h1: "find isDigestStep (filter (\<lambda>s. ns_active s = Some True) (c_template_steps example_command)) = Some stepC"
    by (simp add: example_command_def stepA_def stepB_def stepC_def isDigestStep_def)
  have h2: "metadataType stepC = Some ''regular''"
    by (simp add: stepC_def metadataType_def)
  note inst = job_builder_steps [OF example_execute, THEN conjunct2, THEN conjunct2, THEN conjunct1,
      THEN spec, THEN spec, THEN mp, OF conjI [OF h1 h2]]
  show ?thesis using inst h1 h2 by (simp add: example_digest_filter_def)
qed


end
